theory Spec2Isabelle
  imports Complex_Main "HOL-Library.Multiset" "HOL-Library.AList"
begin

section \<open>Token bucket rate limiter (services/data_ingestion/rate_limiter.py)\<close>

text \<open>
  The class \<^verbatim>\<open>TokenBucketRateLimiter\<close> has four fields. Python's floats are idealised
  as rationals; \<^verbatim>\<open>max_tokens\<close> and the argument of \<^verbatim>\<open>acquire\<close> are Python ints.
  Every reading of \<^verbatim>\<open>time.time()\<close> is an explicit argument \<open>now\<close>.
\<close>

record limiter =
  max_tokens :: int
  refill_rate :: rat
  tokens :: rat
  last_refill_time :: rat

definition init_limiter :: "int \<Rightarrow> rat \<Rightarrow> rat \<Rightarrow> limiter" where
  "init_limiter m r now =
     \<lparr>max_tokens = m, refill_rate = r, tokens = of_int m, last_refill_time = now\<rparr>"

definition refill :: "rat \<Rightarrow> limiter \<Rightarrow> limiter" where
  "refill now s =
     (let time_elapsed = now - last_refill_time s;
          new_tokens = time_elapsed * refill_rate s
      in s\<lparr>tokens := min (of_int (max_tokens s)) (tokens s + new_tokens),
            last_refill_time := now\<rparr>)"

definition acquire :: "int \<Rightarrow> rat \<Rightarrow> limiter \<Rightarrow> bool \<times> limiter" where
  "acquire n now s =
     (let s1 = refill now s
      in if tokens s1 \<ge> of_int n
         then (True, s1\<lparr>tokens := tokens s1 - of_int n\<rparr>)
         else (False, s1))"

text \<open>
  The observation points of a sequence of calls \<^verbatim>\<open>acquire(n)\<close>, each made at a clock
  reading \<open>now\<close>: the state after the refill inside the call, and the state after the call.
\<close>

fun observe :: "(rat \<times> int) list \<Rightarrow> limiter \<Rightarrow> limiter list" where
  "observe [] s = []"
| "observe ((now, n) # cs) s =
     refill now s # snd (acquire n now s) # observe cs (snd (acquire n now s))"

definition in_bounds :: "limiter \<Rightarrow> bool" where
  "in_bounds s \<longleftrightarrow> 0 \<le> tokens s \<and> tokens s \<le> of_int (max_tokens s)"

section \<open>Python values used by the pipeline\<close>

text \<open>
  A decoded JSON object is an association list read with \<open>map_of\<close>; its values are
  strings or \<^verbatim>\<open>null\<close> (Python's \<^verbatim>\<open>None\<close>), which is what the remote API sends. The empty
  list is the empty dict.
\<close>

datatype json = JNull | JStr string

type_synonym payload = "(string \<times> json) list"

datatype py_error = ValueError | TypeError

text \<open>Python's truth value of an object: \<^verbatim>\<open>None\<close> and the empty string are false.\<close>

fun truthy :: "json \<Rightarrow> bool" where
  "truthy JNull = False"
| "truthy (JStr s) = (s \<noteq> [])"

text \<open>\<^verbatim>\<open>d.get(k, default)\<close>\<close>

definition dict_get :: "payload \<Rightarrow> string \<Rightarrow> json \<Rightarrow> json" where
  "dict_get d k dflt = (case map_of d k of None \<Rightarrow> dflt | Some v \<Rightarrow> v)"

text \<open>
  Python's \<^verbatim>\<open>int(s)\<close> on a string, for ASCII input: surrounding whitespace is dropped,
  one sign may come first, then decimal digits with single underscores between digits.
  Anything else raises \<^verbatim>\<open>ValueError\<close>, here \<open>None\<close>. The interpreter's limit on the number
  of digits is left out.
\<close>

definition is_space :: "char \<Rightarrow> bool" where
  "is_space c \<longleftrightarrow> (of_char c :: nat) \<in> {9, 10, 11, 12, 13, 28, 29, 30, 31, 32}"

definition strip :: "string \<Rightarrow> string" where
  "strip s = rev (dropWhile is_space (rev (dropWhile is_space s)))"

definition is_digit :: "char \<Rightarrow> bool" where
  "is_digit c \<longleftrightarrow> 48 \<le> (of_char c :: nat) \<and> (of_char c :: nat) \<le> 57"

definition digit_val :: "char \<Rightarrow> int" where
  "digit_val c = int (of_char c) - 48"

fun digits_val :: "int \<Rightarrow> string \<Rightarrow> int option" where
  "digits_val acc [] = Some acc"
| "digits_val acc (c # cs) =
     (if is_digit c then digits_val (acc * 10 + digit_val c) cs
      else if c = CHR ''_'' \<and> cs \<noteq> [] \<and> is_digit (hd cs) then digits_val acc cs
      else None)"

definition py_int :: "string \<Rightarrow> int option" where
  "py_int s =
     (let t = strip s;
          neg = (t \<noteq> [] \<and> hd t = CHR ''-'');
          u = (if t \<noteq> [] \<and> (hd t = CHR ''-'' \<or> hd t = CHR ''+'') then tl t else t)
      in if u \<noteq> [] \<and> is_digit (hd u)
         then map_option (\<lambda>v. if neg then - v else v) (digits_val 0 u)
         else None)"

text \<open>\<^verbatim>\<open>int(v)\<close> on a JSON value: \<^verbatim>\<open>int(None)\<close> raises \<^verbatim>\<open>TypeError\<close>.\<close>

fun int_of_json :: "json \<Rightarrow> py_error + int" where
  "int_of_json JNull = Inl TypeError"
| "int_of_json (JStr s) = (case py_int s of None \<Rightarrow> Inl ValueError | Some v \<Rightarrow> Inr v)"

text \<open>\<^verbatim>\<open>str(n)\<close> for a natural number, and \<^verbatim>\<open>str(v)\<close> for a JSON value.\<close>

fun str_nat :: "nat \<Rightarrow> string" where
  "str_nat n =
     (if n < 10 then [char_of (48 + n)] else str_nat (n div 10) @ [char_of (48 + n mod 10)])"

declare str_nat.simps [simp del]

definition str_int :: "int \<Rightarrow> string" where
  "str_int i = (if i < 0 then CHR ''-'' # str_nat (nat (- i)) else str_nat (nat i))"

fun str_json :: "json \<Rightarrow> string" where
  "str_json JNull = ''None''"
| "str_json (JStr s) = s"

section \<open>Transform and load steps (services/data_ingestion/pipeline.py, models.py)\<close>

text \<open>
  The mapped class \<^verbatim>\<open>Stock\<close>: \<open>ident\<close> is the primary key \<^verbatim>\<open>id\<close>, unset until the row is
  inserted. The timestamp columns and the relationships are left out. The constructor
  stores whatever value it is given, so \<open>name\<close> and \<open>sector\<close> are JSON values.
\<close>

record stock =
  ident :: "nat option"
  ticker :: string
  name :: json
  sector :: json
  market_cap :: "int option"

text \<open>
  \<^verbatim>\<open>transform_stock\<close>: \<^verbatim>\<open>company_data\<close> is \<open>None\<close> when the fetch returned \<^verbatim>\<open>None\<close>. An
  exception inside the \<^verbatim>\<open>try\<close> block makes the method return \<^verbatim>\<open>None\<close>. The progress
  messages it prints are left out.
\<close>

definition transform_stock :: "string \<Rightarrow> payload option \<Rightarrow> stock option" where
  "transform_stock symbol company_data =
     (case company_data of
        None \<Rightarrow> None
      | Some d \<Rightarrow>
          if d = [] then None
          else
            (let market_cap_str = dict_get d ''MarketCapitalization'' (JStr ''0'')
             in case (if truthy market_cap_str
                      then map_sum id Some (int_of_json market_cap_str)
                      else Inr None) of
                  Inl e \<Rightarrow> None
                | Inr mc \<Rightarrow>
                    Some \<lparr>ident = None, ticker = symbol,
                          name = dict_get d ''Name'' (JStr symbol),
                          sector = dict_get d ''Sector'' JNull,
                          market_cap = mc\<rparr>))"

text \<open>
  The mapped class \<^verbatim>\<open>Fundamental\<close>. The type \<open>'f\<close> stands for Python's floats, and
  \<^verbatim>\<open>float(s)\<close> on a string is the parameter \<open>py_float\<close>, which is \<open>None\<close> where \<^verbatim>\<open>float\<close>
  raises \<^verbatim>\<open>ValueError\<close>. The readings of \<^verbatim>\<open>datetime.now()\<close> are the argument \<open>now\<close>.
\<close>

record datetime =
  year :: nat
  month :: nat
  day :: nat
  second_of_day :: rat

record 'f fundamental =
  stock_id :: nat
  quarter :: string
  revenue :: "int option"
  net_income :: "int option"
  eps :: "'f option"
  pe_ratio :: "'f option"
  debt_to_equity :: "'f option"
  reported_at :: datetime

text \<open>
  The local helper \<^verbatim>\<open>safe_float(value)\<close>; its argument is the result of
  \<^verbatim>\<open>company_data.get(k)\<close>, so a missing key is \<^verbatim>\<open>None\<close>.
\<close>

definition safe_float :: "(string \<Rightarrow> 'f option) \<Rightarrow> json \<Rightarrow> 'f option" where
  "safe_float py_float v =
     (if truthy v \<and> v \<noteq> JStr ''None''
      then (case v of JNull \<Rightarrow> None | JStr s \<Rightarrow> py_float s)
      else None)"

text \<open>\<^verbatim>\<open>int(company_data.get(k, 0) or 0)\<close>: a missing or false value counts as 0.\<close>

definition int_or_zero :: "payload \<Rightarrow> string \<Rightarrow> py_error + int" where
  "int_or_zero d k =
     (case map_of d k of
        None \<Rightarrow> Inr 0
      | Some v \<Rightarrow> if truthy v then int_of_json v else Inr 0)"

definition quarter_label :: "datetime \<Rightarrow> string" where
  "quarter_label now = str_nat (year now) @ ''-Q'' @ str_nat ((month now - 1) div 3 + 1)"

definition transform_fundamental ::
  "(string \<Rightarrow> 'f option) \<Rightarrow> datetime \<Rightarrow> nat \<Rightarrow> payload option \<Rightarrow> 'f fundamental option" where
  "transform_fundamental py_float now sid company_data =
     (case company_data of
        None \<Rightarrow> None
      | Some d \<Rightarrow>
          if d = [] then None
          else
            (case int_or_zero d ''RevenueTTM'' of
               Inl e \<Rightarrow> None
             | Inr rv \<Rightarrow>
                 (case int_or_zero d ''GrossProfitTTM'' of
                    Inl e \<Rightarrow> None
                  | Inr ni \<Rightarrow>
                      Some \<lparr>stock_id = sid,
                            quarter = quarter_label now,
                            revenue = Some rv,
                            net_income = Some ni,
                            eps = safe_float py_float (dict_get d ''EPS'' JNull),
                            pe_ratio = safe_float py_float (dict_get d ''PERatio'' JNull),
                            debt_to_equity =
                              safe_float py_float (dict_get d ''DebtToEquityRatio'' JNull),
                            reported_at = now\<rparr>)))"

text \<open>
  The table \<^verbatim>\<open>stocks\<close> as the session sees it: its rows and the next value of the id
  sequence. \<open>storage_ok\<close> says whether the storage carries out the statements of one
  call of \<^verbatim>\<open>load_stock\<close>; when it raises instead, the \<^verbatim>\<open>except\<close> branch rolls the
  session back and the method returns \<^verbatim>\<open>None\<close>. The lookup takes the first row with the
  ticker; an instance of \<^verbatim>\<open>Stock\<close> is always true. The printed lines are left out.
\<close>

record db =
  rows :: "stock list"
  next_id :: nat

fun update_first :: "('a \<Rightarrow> bool) \<Rightarrow> ('a \<Rightarrow> 'a) \<Rightarrow> 'a list \<Rightarrow> 'a list" where
  "update_first P f [] = []"
| "update_first P f (x # xs) = (if P x then f x # xs else x # update_first P f xs)"

definition load_stock :: "bool \<Rightarrow> db \<Rightarrow> stock \<Rightarrow> nat option \<times> db" where
  "load_stock storage_ok s stock =
     (if \<not> storage_ok then (None, s)
      else
        (case find (\<lambda>r. ticker r = ticker stock) (rows s) of
           Some existing \<Rightarrow>
             (ident existing,
              s\<lparr>rows := update_first (\<lambda>r. ticker r = ticker stock)
                          (\<lambda>r. r\<lparr>name := name stock, sector := sector stock,
                                 market_cap := market_cap stock\<rparr>)
                          (rows s)\<rparr>)
         | None \<Rightarrow>
             (Some (next_id s),
              s\<lparr>rows := rows s @ [stock\<lparr>ident := Some (next_id s)\<rparr>],
                next_id := Suc (next_id s)\<rparr>)))"

text \<open>
  \<^verbatim>\<open>str.upper()\<close> on ASCII text.
\<close>

definition upper_char :: "char \<Rightarrow> char" where
  "upper_char c =
     (if 97 \<le> (of_char c :: nat) \<and> (of_char c :: nat) \<le> 122
      then char_of ((of_char c :: nat) - 32) else c)"

definition upper :: "string \<Rightarrow> string" where
  "upper s = map upper_char s"

text \<open>
  \<^verbatim>\<open>run\<close>: \<open>process\<close> stands for \<^verbatim>\<open>process_single_stock\<close>, acting on a state \<open>'w\<close>
  (the remote API, the rate limiter, the database); it returns a truth value or raises
  an instance of \<^verbatim>\<open>Exception\<close>, here \<open>Inl\<close>. The report and the two counts that are
  printed at the end are returned.
\<close>

record results =
  success :: "string list"
  failed :: "string list"

fun run_loop ::
  "(string \<Rightarrow> 'w \<Rightarrow> ('e + bool) \<times> 'w) \<Rightarrow> string list \<Rightarrow> results \<Rightarrow> 'w \<Rightarrow> results \<times> 'w" where
  "run_loop process [] res w = (res, w)"
| "run_loop process (symbol # rest) res w =
     (case process (upper symbol) w of
        (Inr ok, w') \<Rightarrow>
          if ok then run_loop process rest (res\<lparr>success := success res @ [symbol]\<rparr>) w'
          else run_loop process rest (res\<lparr>failed := failed res @ [symbol]\<rparr>) w'
      | (Inl e, w') \<Rightarrow>
          run_loop process rest (res\<lparr>failed := failed res @ [symbol]\<rparr>) w')"

definition run ::
  "(string \<Rightarrow> 'w \<Rightarrow> ('e + bool) \<times> 'w) \<Rightarrow> string list \<Rightarrow> 'w \<Rightarrow> (results \<times> nat \<times> nat) \<times> 'w" where
  "run process symbols w =
     (let (res, w') = run_loop process symbols \<lparr>success = [], failed = []\<rparr> w
      in ((res, length (success res), length (failed res)), w'))"

text \<open>
  What \<open>process\<close> did for each symbol of the batch, in order: the outcome of the call
  made for the first symbol, then those of the rest from the state it left.
\<close>

fun outcomes :: "(string \<Rightarrow> 'w \<Rightarrow> ('e + bool) \<times> 'w) \<Rightarrow> string list \<Rightarrow> 'w \<Rightarrow> ('e + bool) list" where
  "outcomes process [] w = []"
| "outcomes process (symbol # rest) w =
     fst (process (upper symbol) w) # outcomes process rest (snd (process (upper symbol) w))"

section \<open>Resilient fetcher (services/data_ingestion/fetcher.py)\<close>

text \<open>
  What \<^verbatim>\<open>requests.get\<close> does: it raises \<^verbatim>\<open>Timeout\<close>, raises another
  \<^verbatim>\<open>RequestException\<close>, or returns a response with a status code and a body, which is
  taken to be a JSON object. The remote side is a function from the number of calls
  made so far to what the next call does.
\<close>

datatype response = Timeout | RequestException string | Response int payload

text \<open>
  The effects of the fetcher are recorded in a trace: calls of \<^verbatim>\<open>time.sleep\<close> with their
  duration, remote calls with the query parameters sent, and printed lines. The clock
  is what \<^verbatim>\<open>time.time()\<close> returns; it advances by the duration of each sleep.
\<close>

datatype event = Sleep rat | Call "(string \<times> string) list" | Print string

record fstate =
  rate_limiter :: limiter
  clock :: rat
  calls :: nat
  trace :: "event list"

text \<open>\<^verbatim>\<open>StockFetcher.__init__\<close>: five tokens, refilled at five per minute.\<close>

definition new_fetcher :: "rat \<Rightarrow> fstate" where
  "new_fetcher now =
     \<lparr>rate_limiter = init_limiter 5 (5 / 60) now, clock = now, calls = 0, trace = []\<rparr>"

definition sleep :: "rat \<Rightarrow> fstate \<Rightarrow> fstate" where
  "sleep d st = st\<lparr>clock := clock st + d, trace := trace st @ [Sleep d]\<rparr>"

definition print :: "string \<Rightarrow> fstate \<Rightarrow> fstate" where
  "print line st = st\<lparr>trace := trace st @ [Print line]\<rparr>"

definition limiter_acquire :: "fstate \<Rightarrow> bool \<times> fstate" where
  "limiter_acquire st =
     (case acquire 1 (clock st) (rate_limiter st) of
        (ok, l) \<Rightarrow> (ok, st\<lparr>rate_limiter := l\<rparr>))"

text \<open>
  \<^verbatim>\<open>while not self.rate_limiter.acquire(): time.sleep(0.5)\<close>. The loop need not end
  for every limiter (a refill rate of 0 never refills), so its result is optional.
\<close>

partial_function (option) wait_for_token :: "fstate \<Rightarrow> fstate option" where
  "wait_for_token st =
     (case limiter_acquire st of
        (ok, st1) \<Rightarrow> if ok then Some st1 else wait_for_token (sleep (1 / 2) st1))"

declare wait_for_token.simps [code]

definition http_get ::
  "(nat \<Rightarrow> response) \<Rightarrow> (string \<times> string) list \<Rightarrow> fstate \<Rightarrow> response \<times> fstate" where
  "http_get remote params st =
     (remote (calls st), st\<lparr>calls := Suc (calls st), trace := trace st @ [Call params]\<rparr>)"

definition max_retries :: nat where
  "max_retries = 5"

definition base_delay :: nat where
  "base_delay = 1"

text \<open>The exponential backoff at the end of the loop body.\<close>

definition backoff :: "nat \<Rightarrow> fstate \<Rightarrow> fstate" where
  "backoff attempt st =
     (let delay = base_delay * 2 ^ attempt
      in sleep (of_nat delay)
           (print (''Retrying in '' @ str_nat delay @ '' seconds... (attempt ''
                   @ str_nat (attempt + 1) @ ''/'' @ str_nat max_retries @ '')'') st))"

text \<open>
  One pass through the loop body after the remote call: either the method returns
  (\<open>Return\<close>), or the loop goes on to the next attempt (\<open>Next\<close>), by \<^verbatim>\<open>continue\<close> or by
  reaching the end of the body.
\<close>

datatype step = Return "payload option" fstate | Next fstate

definition handle_response :: "nat \<Rightarrow> response \<Rightarrow> fstate \<Rightarrow> step" where
  "handle_response attempt resp st =
     (case resp of
        Response status_code data \<Rightarrow>
          if status_code = 200 then
            (if map_of data ''Error Message'' \<noteq> None then
               Return None
                 (print (''API Error: '' @ str_json (the (map_of data ''Error Message''))) st)
             else if map_of data ''Note'' \<noteq> None then
               Next (sleep 60
                 (print (''Rate limit warning: '' @ str_json (the (map_of data ''Note''))) st))
             else Return (Some data) st)
          else if status_code = 429 then
            Next (backoff attempt (print ''Rate limited by API (429)'' st))
          else
            Next (backoff attempt (print (''HTTP Error: '' @ str_int status_code) st))
      | Timeout \<Rightarrow>
          Next (backoff attempt
            (print (''Request timeout (attempt '' @ str_nat (attempt + 1) @ '')'') st))
      | RequestException e \<Rightarrow>
          Next (backoff attempt (print (''Request failed: '' @ e) st)))"

text \<open>\<^verbatim>\<open>for attempt in range(max_retries)\<close>, over the list of attempt numbers left.\<close>

fun attempts ::
  "(nat \<Rightarrow> response) \<Rightarrow> (string \<times> string) list \<Rightarrow> nat list \<Rightarrow> fstate
     \<Rightarrow> (payload option \<times> fstate) option" where
  "attempts remote params [] st = Some (None, print ''All retries failed'' st)"
| "attempts remote params (attempt # rest) st =
     (case wait_for_token st of
        None \<Rightarrow> None
      | Some st1 \<Rightarrow>
          (case http_get remote params st1 of
             (resp, st2) \<Rightarrow>
               (case handle_response attempt resp st2 of
                  Return r st3 \<Rightarrow> Some (r, st3)
                | Next st3 \<Rightarrow> attempts remote params rest st3)))"

declare attempts.simps [simp del]

text \<open>
  \<^verbatim>\<open>_make_request\<close>. The dict \<^verbatim>\<open>params\<close> is the caller's object and the method assigns
  to it, so the dict as the caller sees it afterwards is returned with the result.
  The result is \<open>None\<close> when the method does not return.
\<close>

definition make_request ::
  "string \<Rightarrow> (nat \<Rightarrow> response) \<Rightarrow> (string \<times> string) list \<Rightarrow> fstate
     \<Rightarrow> ((payload option \<times> (string \<times> string) list) \<times> fstate) option" where
  "make_request api_key remote params st =
     (let params' = AList.update ''apikey'' api_key params
      in map_option (\<lambda>(r, st'). ((r, params'), st'))
           (attempts remote params' [0..<max_retries] st))"

definition get_company_overview ::
  "string \<Rightarrow> (nat \<Rightarrow> response) \<Rightarrow> string \<Rightarrow> fstate
     \<Rightarrow> ((payload option \<times> (string \<times> string) list) \<times> fstate) option" where
  "get_company_overview api_key remote symbol st =
     make_request api_key remote [(''function'', ''OVERVIEW''), (''symbol'', symbol)] st"

text \<open>Readings of a trace: the sleep durations, and the parameters of the remote calls.\<close>

fun sleeps :: "event list \<Rightarrow> rat list" where
  "sleeps [] = []"
| "sleeps (Sleep d # es) = d # sleeps es"
| "sleeps (e # es) = sleeps es"

fun requests :: "event list \<Rightarrow> (string \<times> string) list list" where
  "requests [] = []"
| "requests (Call p # es) = p # requests es"
| "requests (e # es) = requests es"

text \<open>The sleeps of a trace other than the polls of the rate limiter.\<close>

definition delays :: "event list \<Rightarrow> rat list" where
  "delays es = filter (\<lambda>d. d \<noteq> 1 / 2) (sleeps es)"

text \<open>The outcomes that reach the exponential backoff at the end of the loop body.\<close>

fun falls_to_backoff :: "response \<Rightarrow> bool" where
  "falls_to_backoff (Response status_code data) = (status_code \<noteq> 200)"
| "falls_to_backoff Timeout = True"
| "falls_to_backoff (RequestException e) = True"

text \<open>
  The outcome that takes the fixed cooldown: status 200 and a body with the field
  \<^verbatim>\<open>Note\<close> and without the field \<^verbatim>\<open>Error Message\<close>, which is looked for first.
\<close>

fun throttle_notice :: "response \<Rightarrow> bool" where
  "throttle_notice (Response status_code data) =
     (status_code = 200 \<and> map_of data ''Error Message'' = None \<and> map_of data ''Note'' \<noteq> None)"
| "throttle_notice Timeout = False"
| "throttle_notice (RequestException e) = False"

text \<open>
  The schedule of delays stated for a fetch whose attempts are all retried: after the
  attempt numbered \<open>i\<close>, answered by the call numbered \<open>k\<close>, the fixed 60 when the answer
  is the throttle notice and \<^verbatim>\<open>base_delay * 2 ** i\<close> otherwise.
\<close>

fun expected_delays :: "(nat \<Rightarrow> response) \<Rightarrow> nat \<Rightarrow> nat list \<Rightarrow> rat list" where
  "expected_delays remote k [] = []"
| "expected_delays remote k (i # rest) =
     (if throttle_notice (remote k) then 60 else of_nat (base_delay * 2 ^ i))
       # expected_delays remote (Suc k) rest"

text \<open>A limiter on which the wait for a token ends: it refills, and it can hold a token.\<close>

definition can_refill :: "limiter \<Rightarrow> bool" where
  "can_refill l \<longleftrightarrow> 0 < refill_rate l \<and> 1 \<le> max_tokens l"

section \<open>Properties of the rate limiter\<close>


lemma refill_fields [simp]:
  "max_tokens (refill now s) = max_tokens s"
  "refill_rate (refill now s) = refill_rate s"
  "last_refill_time (refill now s) = now"
  by (simp_all add: refill_def Let_def)

lemma refill_tokens:
  "tokens (refill now s) =
     min (of_int (max_tokens s)) (tokens s + (now - last_refill_time s) * refill_rate s)"
  by (simp add: refill_def Let_def)

lemma acquire_fields [simp]:
  "max_tokens (snd (acquire n now s)) = max_tokens s"
  "refill_rate (snd (acquire n now s)) = refill_rate s"
  "last_refill_time (snd (acquire n now s)) = now"
  by (simp_all add: acquire_def Let_def)

lemma refill_in_bounds:
  assumes "in_bounds s" and "0 \<le> refill_rate s" and "last_refill_time s \<le> now"
  shows "in_bounds (refill now s)"
proof -
  have "0 \<le> (now - last_refill_time s) * refill_rate s"
    using assms(2,3) by simp
  then show ?thesis
    using assms(1) by (simp add: in_bounds_def refill_tokens)
qed

lemma acquire_in_bounds:
  assumes "in_bounds s" and "0 \<le> refill_rate s" and "last_refill_time s \<le> now"
    and "0 < n"
  shows "in_bounds (snd (acquire n now s))"
proof -
  have r: "in_bounds (refill now s)"
    using assms(1-3) by (rule refill_in_bounds)
  have n: "(0::rat) < of_int n"
    using assms(4) by simp
  show ?thesis
  proof (cases "of_int n \<le> tokens (refill now s)")
    case True
    then have "snd (acquire n now s) = (refill now s)\<lparr>tokens := tokens (refill now s) - of_int n\<rparr>"
      by (simp add: acquire_def Let_def)
    moreover have "0 \<le> tokens (refill now s) - of_int n"
      using True by simp
    moreover have "tokens (refill now s) - of_int n \<le> of_int (max_tokens s)"
      using r n by (simp add: in_bounds_def)
    ultimately show ?thesis
      by (simp add: in_bounds_def)
  next
    case False
    then have "snd (acquire n now s) = refill now s"
      by (simp add: acquire_def Let_def)
    then show ?thesis using r by simp
  qed
qed

lemma observe_in_bounds:
  assumes "in_bounds s" and "0 \<le> refill_rate s"
    and "sorted (last_refill_time s # map fst cs)"
    and "list_all (\<lambda>c. 0 < snd c) cs"
  shows "list_all in_bounds (observe cs s)"
  using assms
proof (induction cs arbitrary: s)
  case Nil
  then show ?case by simp
next
  case (Cons c cs)
  obtain now n where c: "c = (now, n)" by (cases c)
  from Cons.prems(3) c have le: "last_refill_time s \<le> now" by simp
  from Cons.prems(4) c have pos: "0 < n" by simp
  have a: "in_bounds (refill now s)"
    using Cons.prems(1,2) le by (rule refill_in_bounds)
  have b: "in_bounds (snd (acquire n now s))"
    using Cons.prems(1,2) le pos by (rule acquire_in_bounds)
  have "sorted (last_refill_time (snd (acquire n now s)) # map fst cs)"
    using Cons.prems(3) c by simp
  moreover have "list_all (\<lambda>c. 0 < snd c) cs"
    using Cons.prems(4) by simp
  ultimately have "list_all in_bounds (observe cs (snd (acquire n now s)))"
    using Cons.IH [of "snd (acquire n now s)"] b Cons.prems(2) by simp
  then show ?case using a b c by simp
qed

text \<open>
  Claim C4. A limiter initialised at time \<open>t0\<close> with capacity \<open>C > 0\<close> and refill rate
  \<open>r \<ge> 0\<close>, then asked for positive numbers of tokens at clock readings that never
  decrease, holds between \<open>0\<close> and \<open>C\<close> tokens at every observation point: at
  construction, after each refill and after each acquire.
\<close>

theorem token_bucket_bounds:
  assumes "0 < C" and "0 \<le> r"
    and "sorted (t0 # map fst cs)"
    and "list_all (\<lambda>c. 0 < snd c) cs"
  shows "list_all (\<lambda>s. 0 \<le> tokens s \<and> tokens s \<le> of_int C)
           (init_limiter C r t0 # observe cs (init_limiter C r t0))"
proof -
  let ?s = "init_limiter C r t0"
  have i: "in_bounds ?s"
    using assms(1) by (simp add: in_bounds_def init_limiter_def)
  have "list_all in_bounds (observe cs ?s)"
    using i assms(2-4) by (intro observe_in_bounds) (simp_all add: init_limiter_def)
  moreover have "\<forall>s \<in> set (observe cs ?s). max_tokens s = C"
  proof -
    have "\<And>s. \<forall>x \<in> set (observe cs s). max_tokens x = max_tokens s"
    proof (induction cs)
      case Nil
      show ?case by simp
    next
      case (Cons c cs)
      obtain now n where c: "c = (now, n)" by (cases c)
      show ?case using Cons.IH [of "snd (acquire n now s)"] c by simp
    qed
    from this [of ?s] show ?thesis by (simp add: init_limiter_def)
  qed
  ultimately have "list_all (\<lambda>s. 0 \<le> tokens s \<and> tokens s \<le> of_int C) (observe cs ?s)"
    by (simp add: list_all_iff in_bounds_def)
  then show ?thesis using i by (simp add: in_bounds_def init_limiter_def)
qed

theorem token_bucket_bounds_witness:
  "(0::int) < 5 \<and> (0::rat) \<le> 2
   \<and> sorted ((0::rat) # map fst [(0, 1), (0, 3), (0, 2), (1, 2::int)])
   \<and> list_all (\<lambda>c. 0 < snd c) [(0::rat, 1), (0, 3), (0, 2), (1, 2::int)]
   \<and> list_all (\<lambda>s. 0 \<le> tokens s \<and> tokens s \<le> 5)
        (init_limiter 5 2 0 # observe [(0, 1), (0, 3), (0, 2), (1, 2)] (init_limiter 5 2 0))"
  using token_bucket_bounds [of 5 2 0 "[(0, 1), (0, 3), (0, 2), (1, 2)]"]
  by simp

text \<open>
  Claim C5 says that \<^verbatim>\<open>acquire(n)\<close> with \<open>n \<le> 0\<close> is rejected with an input error and
  performs no acquisition. The method has no validation of its argument: on a full
  bucket of capacity 5, \<^verbatim>\<open>acquire(-1)\<close> returns \<^verbatim>\<open>True\<close> and leaves 6 tokens.
\<close>

theorem acquire_nonpositive_counterexample:
  "fst (acquire (- 1) 0 (init_limiter 5 2 0))
   \<and> tokens (snd (acquire (- 1) 0 (init_limiter 5 2 0))) = 6"
  by (simp add: acquire_def refill_def init_limiter_def Let_def)

text \<open>
  Claim C5 as amended. No call of \<^verbatim>\<open>acquire\<close> is rejected: for \<open>n \<le> 0\<close>, on a bucket
  within its bounds with a non-negative refill rate and a clock that has not gone back,
  the call returns \<^verbatim>\<open>True\<close> and subtracts \<open>n\<close> from the refilled token count, so the
  count is unchanged for \<open>n = 0\<close> and grows by \<open>-n\<close> for \<open>n < 0\<close>.
\<close>

theorem acquire_nonpositive_accepted:
  assumes "n \<le> 0" and "in_bounds s" and "0 \<le> refill_rate s"
    and "last_refill_time s \<le> now"
  shows "acquire n now s
           = (True, (refill now s)\<lparr>tokens := tokens (refill now s) - of_int n\<rparr>)"
proof -
  have "in_bounds (refill now s)"
    using assms(2-4) by (rule refill_in_bounds)
  then have "0 \<le> tokens (refill now s)"
    by (simp add: in_bounds_def)
  moreover have "(of_int n :: rat) \<le> 0"
    using assms(1) by simp
  ultimately have "of_int n \<le> tokens (refill now s)"
    by linarith
  then show ?thesis
    by (simp add: acquire_def Let_def)
qed

theorem acquire_nonpositive_accepted_witness:
  "(0::int) \<le> 0 \<and> in_bounds (init_limiter 5 2 0)
   \<and> 0 \<le> refill_rate (init_limiter 5 2 0)
   \<and> last_refill_time (init_limiter 5 2 0) \<le> 1
   \<and> acquire 0 1 (init_limiter 5 2 0)
       = (True, \<lparr>max_tokens = 5, refill_rate = 2, tokens = 5, last_refill_time = 1\<rparr>)"
  using acquire_nonpositive_accepted [of 0 "init_limiter 5 2 0" 1]
  by (simp add: in_bounds_def init_limiter_def refill_def Let_def)

section \<open>Properties of the transform steps\<close>

lemma py_int_zero: "py_int ''0'' = Some 0"
  by (simp add: py_int_def strip_def is_space_def is_digit_def digit_val_def)

lemma transform_stock_missing_cap:
  assumes "d \<noteq> []" and "map_of d ''MarketCapitalization'' = None"
  shows "transform_stock symbol (Some d)
           = Some \<lparr>ident = None, ticker = symbol, name = dict_get d ''Name'' (JStr symbol),
                   sector = dict_get d ''Sector'' JNull, market_cap = Some 0\<rparr>"
  using assms by (simp add: transform_stock_def dict_get_def py_int_zero)

lemma transform_stock_false_cap:
  assumes "d \<noteq> []" and "map_of d ''MarketCapitalization'' = Some v" and "\<not> truthy v"
  shows "transform_stock symbol (Some d)
           = Some \<lparr>ident = None, ticker = symbol, name = dict_get d ''Name'' (JStr symbol),
                   sector = dict_get d ''Sector'' JNull, market_cap = None\<rparr>"
  using assms by (simp add: transform_stock_def dict_get_def)

lemma transform_stock_name:
  assumes "transform_stock symbol (Some d) = Some r"
  shows "name r = dict_get d ''Name'' (JStr symbol)"
  using assms
  by (auto simp: transform_stock_def Let_def split: if_splits sum.splits)

text \<open>
  Claim C7 says that a payload without a market-capitalization string gives a record
  whose market cap is null, not zero. The method reads the key with the default
  \<^verbatim>\<open>"0"\<close>, which is a true string, so the market cap of such a payload is the integer 0.
\<close>

theorem transform_stock_market_cap_counterexample:
  "map_option market_cap (transform_stock ''AAPL'' (Some [(''Name'', JStr ''Apple Inc.'')]))
     = Some (Some 0)"
  by (simp add: transform_stock_def dict_get_def py_int_zero)

lemma transform_stock_valid_cap:
  assumes "d \<noteq> []" and "map_of d ''MarketCapitalization'' = Some (JStr s)"
    and "s \<noteq> []" and "py_int s = Some v"
  shows "transform_stock symbol (Some d)
           = Some \<lparr>ident = None, ticker = symbol, name = dict_get d ''Name'' (JStr symbol),
                   sector = dict_get d ''Sector'' JNull, market_cap = Some v\<rparr>"
  using assms by (simp add: transform_stock_def dict_get_def)

lemma transform_stock_invalid_cap:
  assumes "d \<noteq> []" and "map_of d ''MarketCapitalization'' = Some (JStr s)"
    and "s \<noteq> []" and "py_int s = None"
  shows "transform_stock symbol (Some d) = None"
  using assms by (simp add: transform_stock_def dict_get_def)

lemma transform_stock_produces:
  assumes "d \<noteq> []"
    and "\<forall>s. map_of d ''MarketCapitalization'' = Some (JStr s) \<longrightarrow> s = [] \<or> py_int s \<noteq> None"
  shows "\<exists>mc. transform_stock symbol (Some d)
           = Some \<lparr>ident = None, ticker = symbol, name = dict_get d ''Name'' (JStr symbol),
                   sector = dict_get d ''Sector'' JNull, market_cap = mc\<rparr>"
proof (cases "map_of d ''MarketCapitalization''")
  case None
  with assms(1) show ?thesis by (simp add: transform_stock_missing_cap)
next
  case (Some v)
  show ?thesis
  proof (cases "truthy v")
    case False
    with assms(1) Some show ?thesis by (simp add: transform_stock_false_cap)
  next
    case True
    then obtain s where v: "v = JStr s" and s: "s \<noteq> []" by (cases v) simp_all
    with assms(2) Some obtain n where "py_int s = Some n" by auto
    with assms(1) Some v s show ?thesis by (simp add: transform_stock_valid_cap)
  qed
qed

text \<open>
  Claim C7 as amended. For a non-empty overview payload: when the key
  \<^verbatim>\<open>MarketCapitalization\<close> is missing the transform gives a record with market cap 0;
  when its value is null or the empty string it gives a record with market cap null;
  when the key \<^verbatim>\<open>Name\<close> is missing and the market-capitalization value is missing, null,
  empty or a valid integer literal, it gives a record whose name is the symbol itself;
  and when the market-capitalization value is a non-empty string that \<^verbatim>\<open>int\<close> rejects,
  it gives no record, whatever the rest of the payload holds.
\<close>

theorem transform_stock_defaults:
  assumes "d \<noteq> []"
  shows "(map_of d ''MarketCapitalization'' = None \<longrightarrow>
            map_option market_cap (transform_stock symbol (Some d)) = Some (Some 0))
       \<and> (map_of d ''MarketCapitalization'' \<in> {Some JNull, Some (JStr [])} \<longrightarrow>
            map_option market_cap (transform_stock symbol (Some d)) = Some None)
       \<and> (map_of d ''Name'' = None
            \<and> (\<forall>s. map_of d ''MarketCapitalization'' = Some (JStr s)
                    \<longrightarrow> s = [] \<or> py_int s \<noteq> None) \<longrightarrow>
            map_option name (transform_stock symbol (Some d)) = Some (JStr symbol))
       \<and> ((\<exists>s. map_of d ''MarketCapitalization'' = Some (JStr s) \<and> s \<noteq> []
                 \<and> py_int s = None) \<longrightarrow>
            transform_stock symbol (Some d) = None)"
proof (intro conjI impI)
  assume "map_of d ''MarketCapitalization'' = None"
  then show "map_option market_cap (transform_stock symbol (Some d)) = Some (Some 0)"
    using assms by (simp add: transform_stock_missing_cap)
next
  assume "map_of d ''MarketCapitalization'' \<in> {Some JNull, Some (JStr [])}"
  then obtain v where "map_of d ''MarketCapitalization'' = Some v" and "\<not> truthy v"
    by auto
  then show "map_option market_cap (transform_stock symbol (Some d)) = Some None"
    using assms by (simp add: transform_stock_false_cap)
next
  assume a: "map_of d ''Name'' = None
            \<and> (\<forall>s. map_of d ''MarketCapitalization'' = Some (JStr s)
                    \<longrightarrow> s = [] \<or> py_int s \<noteq> None)"
  then obtain mc where "transform_stock symbol (Some d)
           = Some \<lparr>ident = None, ticker = symbol, name = dict_get d ''Name'' (JStr symbol),
                   sector = dict_get d ''Sector'' JNull, market_cap = mc\<rparr>"
    using transform_stock_produces [OF assms, of symbol] by blast
  with a show "map_option name (transform_stock symbol (Some d)) = Some (JStr symbol)"
    by (simp add: dict_get_def)
next
  assume "\<exists>s. map_of d ''MarketCapitalization'' = Some (JStr s) \<and> s \<noteq> []
                 \<and> py_int s = None"
  then show "transform_stock symbol (Some d) = None"
    using assms by (auto simp: transform_stock_invalid_cap)
qed

theorem transform_stock_defaults_witness:
  "[(''Sector'', JStr ''Technology'')] \<noteq> []
   \<and> map_of [(''Sector'', JStr ''Technology'')] ''MarketCapitalization'' = None
   \<and> map_of [(''Sector'', JStr ''Technology'')] ''Name'' = None
   \<and> transform_stock ''AAPL'' (Some [(''Sector'', JStr ''Technology'')])
       = Some \<lparr>ident = None, ticker = ''AAPL'', name = JStr ''AAPL'',
               sector = JStr ''Technology'', market_cap = Some 0\<rparr>"
  using transform_stock_defaults [of "[(''Sector'', JStr ''Technology'')]" "''AAPL''"]
  by (simp add: transform_stock_def dict_get_def py_int_zero)

lemma safe_float_null:
  assumes "v \<in> {JNull, JStr [], JStr ''None''} \<or> (\<exists>s. v = JStr s \<and> py_float s = None)"
  shows "safe_float py_float v = None"
  using assms by (auto simp: safe_float_def)

lemma int_or_zero_false:
  assumes "map_of d k \<in> {None, Some JNull, Some (JStr [])}"
  shows "int_or_zero d k = Inr 0"
  using assms by (auto simp: int_or_zero_def)

lemma int_or_zero_ok:
  assumes "\<forall>s. map_of d k = Some (JStr s) \<longrightarrow> s = [] \<or> py_int s \<noteq> None"
  shows "\<exists>v. int_or_zero d k = Inr v"
proof (cases "map_of d k")
  case None
  then show ?thesis by (simp add: int_or_zero_def)
next
  case (Some v)
  show ?thesis
  proof (cases v)
    case JNull
    with Some show ?thesis by (simp add: int_or_zero_def)
  next
    case (JStr s)
    with Some assms have "s = [] \<or> py_int s \<noteq> None" by simp
    with Some JStr show ?thesis by (auto simp: int_or_zero_def)
  qed
qed

text \<open>
  Claim C8 says that every numeric field of the periodic report is null when its source
  value is the empty string, the text \<^verbatim>\<open>None\<close> or an invalid literal. The two integer
  fields do not go through the helper: an empty revenue string gives revenue 0, and
  the revenue string \<^verbatim>\<open>None\<close> makes the whole transform return no record. (The float
  parser of the example accepts integer literals only; it plays no part in the result.)
\<close>

theorem transform_fundamental_counterexample:
  "map_option revenue
     (transform_fundamental (\<lambda>s. map_option rat_of_int (py_int s))
        \<lparr>year = 2026, month = 11, day = 4, second_of_day = 0\<rparr> 1
        (Some [(''RevenueTTM'', JStr [])])) = Some (Some 0)
   \<and> transform_fundamental (\<lambda>s. map_option rat_of_int (py_int s))
        \<lparr>year = 2026, month = 11, day = 4, second_of_day = 0\<rparr> 1
        (Some [(''RevenueTTM'', JStr ''None''), (''EPS'', JStr ''6'')]) = None"
  by (simp add: transform_fundamental_def int_or_zero_def py_int_def strip_def
      is_space_def is_digit_def)

text \<open>
  Claim C8 as amended. For a non-empty overview payload whose \<^verbatim>\<open>RevenueTTM\<close> and
  \<^verbatim>\<open>GrossProfitTTM\<close> values are each missing, null, empty or a valid integer literal, the
  transform produces a record; in it each of the float fields \<^verbatim>\<open>eps\<close>, \<^verbatim>\<open>pe_ratio\<close> and
  \<^verbatim>\<open>debt_to_equity\<close> is null when its source value is missing, null, the empty string,
  the text \<^verbatim>\<open>None\<close> or a string that \<^verbatim>\<open>float\<close> rejects, and each of the integer fields
  \<^verbatim>\<open>revenue\<close> and \<^verbatim>\<open>net_income\<close> is 0 when its source value is missing, null or the
  empty string.
\<close>

theorem transform_fundamental_parse_or_null:
  assumes "d \<noteq> []"
    and "\<forall>s. map_of d ''RevenueTTM'' = Some (JStr s) \<longrightarrow> s = [] \<or> py_int s \<noteq> None"
    and "\<forall>s. map_of d ''GrossProfitTTM'' = Some (JStr s) \<longrightarrow> s = [] \<or> py_int s \<noteq> None"
  shows "\<exists>r. transform_fundamental py_float now sid (Some d) = Some r
       \<and> (\<forall>(k, field) \<in> set [(''EPS'', eps), (''PERatio'', pe_ratio),
                               (''DebtToEquityRatio'', debt_to_equity)].
            map_of d k \<in> {None, Some JNull, Some (JStr []), Some (JStr ''None'')}
            \<or> (\<exists>s. map_of d k = Some (JStr s) \<and> py_float s = None)
            \<longrightarrow> field r = None)
       \<and> (\<forall>(k, field) \<in> set [(''RevenueTTM'', revenue), (''GrossProfitTTM'', net_income)].
            map_of d k \<in> {None, Some JNull, Some (JStr [])} \<longrightarrow> field r = Some 0)"
proof -
  obtain rv where rv: "int_or_zero d ''RevenueTTM'' = Inr rv"
    using int_or_zero_ok [OF assms(2)] by blast
  obtain ni where ni: "int_or_zero d ''GrossProfitTTM'' = Inr ni"
    using int_or_zero_ok [OF assms(3)] by blast
  define r where "r = \<lparr>stock_id = sid, quarter = quarter_label now, revenue = Some rv,
    net_income = Some ni, eps = safe_float py_float (dict_get d ''EPS'' JNull),
    pe_ratio = safe_float py_float (dict_get d ''PERatio'' JNull),
    debt_to_equity = safe_float py_float (dict_get d ''DebtToEquityRatio'' JNull),
    reported_at = now\<rparr>"
  have t: "transform_fundamental py_float now sid (Some d) = Some r"
    using assms(1) rv ni by (simp add: transform_fundamental_def r_def)
  have fl: "safe_float py_float (dict_get d k JNull) = None"
    if "map_of d k \<in> {None, Some JNull, Some (JStr []), Some (JStr ''None'')}
        \<or> (\<exists>s. map_of d k = Some (JStr s) \<and> py_float s = None)" for k
    using that by (intro safe_float_null) (auto simp: dict_get_def)
  have z1: "rv = 0" if "map_of d ''RevenueTTM'' \<in> {None, Some JNull, Some (JStr [])}"
    using int_or_zero_false [OF that] rv by simp
  have z2: "ni = 0" if "map_of d ''GrossProfitTTM'' \<in> {None, Some JNull, Some (JStr [])}"
    using int_or_zero_false [OF that] ni by simp
  have "\<forall>(k, field) \<in> set [(''EPS'', eps), (''PERatio'', pe_ratio),
                               (''DebtToEquityRatio'', debt_to_equity)].
            map_of d k \<in> {None, Some JNull, Some (JStr []), Some (JStr ''None'')}
            \<or> (\<exists>s. map_of d k = Some (JStr s) \<and> py_float s = None)
            \<longrightarrow> field r = None"
    using fl by (simp add: r_def)
  moreover have "\<forall>(k, field) \<in> set [(''RevenueTTM'', revenue), (''GrossProfitTTM'', net_income)].
            map_of d k \<in> {None, Some JNull, Some (JStr [])} \<longrightarrow> field r = Some 0"
    using z1 z2 by (simp add: r_def)
  ultimately show ?thesis using t by blast
qed

lemma quarter_label_example:
  "quarter_label \<lparr>year = 2026, month = 11, day = 4, second_of_day = 0\<rparr> = ''2026-Q4''"
  by code_simp

theorem transform_fundamental_parse_or_null_witness:
  "[(''RevenueTTM'', JStr []), (''EPS'', JStr ''None''), (''PERatio'', JStr ''abc'')] \<noteq> []
   \<and> py_int ''abc'' = None
   \<and> transform_fundamental (\<lambda>s. map_option rat_of_int (py_int s))
        \<lparr>year = 2026, month = 11, day = 4, second_of_day = 0\<rparr> 1
        (Some [(''RevenueTTM'', JStr []), (''EPS'', JStr ''None''), (''PERatio'', JStr ''abc'')])
      = Some \<lparr>stock_id = 1, quarter = ''2026-Q4'', revenue = Some 0, net_income = Some 0,
              eps = None, pe_ratio = None, debt_to_equity = None,
              reported_at = \<lparr>year = 2026, month = 11, day = 4, second_of_day = 0\<rparr>\<rparr>"
  using transform_fundamental_parse_or_null
    [of "[(''RevenueTTM'', JStr []), (''EPS'', JStr ''None''), (''PERatio'', JStr ''abc'')]"
        "\<lambda>s. map_option rat_of_int (py_int s)"
        "\<lparr>year = 2026, month = 11, day = 4, second_of_day = 0\<rparr>" 1]
  by (simp add: transform_fundamental_def int_or_zero_def safe_float_def dict_get_def
      quarter_label_example py_int_def strip_def is_space_def is_digit_def)

section \<open>Properties of the entity upsert\<close>

lemma update_first_tickers:
  assumes "\<And>x. ticker (g x) = ticker x"
  shows "map ticker (update_first P g xs) = map ticker xs"
  by (induction xs) (simp_all add: assms)

lemma filter_distinct_key:
  assumes "distinct (map ticker xs)"
  shows "length (filter (\<lambda>x. ticker x = t) xs) \<le> 1"
  using assms
proof (induction xs)
  case Nil
  then show ?case by simp
next
  case (Cons x xs)
  show ?case
  proof (cases "ticker x = t")
    case True
    with Cons.prems have "\<forall>y \<in> set xs. ticker y \<noteq> t" by (force simp: image_iff)
    then have "filter (\<lambda>x. ticker x = t) xs = []" by (simp add: filter_empty_conv)
    with True show ?thesis by simp
  next
    case False
    with Cons show ?thesis by simp
  qed
qed

lemma find_update_first:
  assumes "distinct (map ticker xs)" and "find (\<lambda>x. ticker x = t) xs = Some e"
    and "\<And>x. ticker (g x) = ticker x"
  shows "filter (\<lambda>x. ticker x = t) (update_first (\<lambda>x. ticker x = t) g xs) = [g e]"
  using assms(1,2)
proof (induction xs)
  case Nil
  then show ?case by simp
next
  case (Cons x xs)
  show ?case
  proof (cases "ticker x = t")
    case True
    with Cons.prems have e: "e = x" and "\<forall>y \<in> set xs. ticker y \<noteq> t" by (force simp: image_iff)+
    then have "filter (\<lambda>x. ticker x = t) xs = []" by (simp add: filter_empty_conv)
    with True e show ?thesis by (simp add: assms(3))
  next
    case False
    with Cons show ?thesis by simp
  qed
qed

lemma find_of_filter:
  assumes "filter P xs = [e]"
  shows "find P xs = Some e"
  using assms by (induction xs) (auto split: if_splits)

lemma load_stock_failed:
  "load_stock False s a = (None, s)"
  by (simp add: load_stock_def)

lemma load_stock_ok:
  assumes "distinct (map ticker (rows s))" and "load_stock True s a = (r, s')"
  shows "distinct (map ticker (rows s'))
       \<and> (\<exists>row. filter (\<lambda>x. ticker x = ticker a) (rows s') = [row] \<and> ident row = r
             \<and> name row = name a \<and> sector row = sector a \<and> market_cap row = market_cap a)"
proof (cases "find (\<lambda>x. ticker x = ticker a) (rows s)")
  case None
  then have no: "\<forall>x \<in> set (rows s). ticker x \<noteq> ticker a"
    by (simp add: find_None_iff)
  then have "filter (\<lambda>x. ticker x = ticker a) (rows s) = []"
    by (simp add: filter_empty_conv)
  moreover from None assms(2) have "r = Some (next_id s)"
    and "rows s' = rows s @ [a\<lparr>ident := Some (next_id s)\<rparr>]"
    by (auto simp: load_stock_def)
  ultimately show ?thesis using assms(1) no by auto
next
  case (Some e)
  let ?g = "\<lambda>r. r\<lparr>name := name a, sector := sector a, market_cap := market_cap a\<rparr>"
  from Some assms(2) have r: "r = ident e"
    and rows: "rows s' = update_first (\<lambda>x. ticker x = ticker a) ?g (rows s)"
    by (auto simp: load_stock_def)
  have "filter (\<lambda>x. ticker x = ticker a) (rows s') = [?g e]"
    unfolding rows using assms(1) Some by (rule find_update_first) simp
  moreover have "map ticker (rows s') = map ticker (rows s)"
    unfolding rows by (rule update_first_tickers) simp
  ultimately show ?thesis using assms(1) r by simp
qed

lemma load_stock_distinct:
  assumes "distinct (map ticker (rows s))" and "load_stock ok s a = (r, s')"
  shows "distinct (map ticker (rows s'))"
proof (cases ok)
  case True
  with assms(2) have "load_stock True s a = (r, s')" by simp
  with assms(1) show ?thesis by (simp add: load_stock_ok)
next
  case False
  with assms show ?thesis by (simp add: load_stock_failed)
qed

text \<open>
  Claim C6. On a table that respects the unique constraint on \<^verbatim>\<open>ticker\<close>, two calls of
  \<^verbatim>\<open>load_stock\<close> for the same ticker never leave two rows for it. When the second call
  is carried out by the storage, exactly one row for that ticker is stored, with the
  name, sector and market cap of the second call; when both are carried out, both
  return the same id, which is the id of that row, and it is the fresh id of the
  first call when the ticker was not stored before.
\<close>

theorem load_stock_upsert_twice:
  assumes "distinct (map ticker (rows s))" and "ticker b = ticker a"
    and "load_stock ok1 s a = (r1, s1)" and "load_stock ok2 s1 b = (r2, s2)"
  shows "length (filter (\<lambda>x. ticker x = ticker a) (rows s2)) \<le> 1
       \<and> (ok2 \<longrightarrow> (\<exists>row. filter (\<lambda>x. ticker x = ticker a) (rows s2) = [row]
               \<and> ident row = r2 \<and> name row = name b \<and> sector row = sector b
               \<and> market_cap row = market_cap b))
       \<and> (ok1 \<and> ok2 \<longrightarrow> r2 = r1)
       \<and> (ok1 \<and> ticker a \<notin> ticker ` set (rows s) \<longrightarrow> r1 = Some (next_id s))"
proof (intro conjI impI)
  have d1: "distinct (map ticker (rows s1))"
    using assms(1,3) by (rule load_stock_distinct)
  have d2: "distinct (map ticker (rows s2))"
    using d1 assms(4) by (rule load_stock_distinct)
  show "length (filter (\<lambda>x. ticker x = ticker a) (rows s2)) \<le> 1"
    using d2 by (rule filter_distinct_key)
  show "\<exists>row. filter (\<lambda>x. ticker x = ticker a) (rows s2) = [row]
               \<and> ident row = r2 \<and> name row = name b \<and> sector row = sector b
               \<and> market_cap row = market_cap b" if "ok2"
    using load_stock_ok [OF d1, of b r2 s2] assms(2,4) that by simp
  show "r2 = r1" if "ok1 \<and> ok2"
  proof -
    from that assms(3) have "load_stock True s a = (r1, s1)" by simp
    from load_stock_ok [OF assms(1) this]
    obtain row where row: "filter (\<lambda>x. ticker x = ticker a) (rows s1) = [row]"
      and id: "ident row = r1" by blast
    from row have "find (\<lambda>x. ticker x = ticker b) (rows s1) = Some row"
      using assms(2) by (simp add: find_of_filter)
    with that assms(4) id show ?thesis
      by (auto simp: load_stock_def)
  qed
  show "r1 = Some (next_id s)" if "ok1 \<and> ticker a \<notin> ticker ` set (rows s)"
  proof -
    from that have "find (\<lambda>x. ticker x = ticker a) (rows s) = None"
      by (force simp: find_None_iff image_iff)
    with that assms(3) show ?thesis by (auto simp: load_stock_def)
  qed
qed

theorem load_stock_upsert_twice_witness:
  "distinct (map ticker (rows \<lparr>rows = [], next_id = 1\<rparr>))
   \<and> load_stock True
        (snd (load_stock True \<lparr>rows = [], next_id = 1\<rparr>
           \<lparr>ident = None, ticker = ''AAPL'', name = JStr ''Apple'', sector = JNull,
            market_cap = Some 0\<rparr>))
        \<lparr>ident = None, ticker = ''AAPL'', name = JStr ''Apple Inc.'',
         sector = JStr ''Technology'', market_cap = Some 3000000000000\<rparr>
      = (Some 1,
         \<lparr>rows = [\<lparr>ident = Some 1, ticker = ''AAPL'', name = JStr ''Apple Inc.'',
                   sector = JStr ''Technology'', market_cap = Some 3000000000000\<rparr>],
          next_id = 2\<rparr>)"
  using load_stock_upsert_twice
    [of "\<lparr>rows = [], next_id = 1\<rparr>"
        "\<lparr>ident = None, ticker = ''AAPL'', name = JStr ''Apple Inc.'',
          sector = JStr ''Technology'', market_cap = Some 3000000000000\<rparr>"
        "\<lparr>ident = None, ticker = ''AAPL'', name = JStr ''Apple'', sector = JNull,
          market_cap = Some 0\<rparr>"
        True "Some 1"
        "\<lparr>rows = [\<lparr>ident = Some 1, ticker = ''AAPL'', name = JStr ''Apple'', sector = JNull,
                   market_cap = Some 0\<rparr>], next_id = 2\<rparr>"
        True "Some 1"
        "\<lparr>rows = [\<lparr>ident = Some 1, ticker = ''AAPL'', name = JStr ''Apple Inc.'',
                   sector = JStr ''Technology'', market_cap = Some 3000000000000\<rparr>],
          next_id = 2\<rparr>"]
  by (simp add: load_stock_def)

section \<open>Properties of the batch run\<close>

lemma length_outcomes: "length (outcomes process symbols w) = length symbols"
  by (induction symbols arbitrary: w) simp_all

lemma run_loop_report:
  "fst (run_loop process symbols res w)
     = \<lparr>success = success res
          @ map fst (filter (\<lambda>(s, r). r = Inr True) (zip symbols (outcomes process symbols w))),
        failed = failed res
          @ map fst (filter (\<lambda>(s, r). r \<noteq> Inr True) (zip symbols (outcomes process symbols w)))\<rparr>"
proof (induction symbols arbitrary: res w)
  case Nil
  show ?case by simp
next
  case (Cons symbol rest)
  obtain r w' where p: "process (upper symbol) w = (r, w')"
    by (cases "process (upper symbol) w")
  show ?case
  proof (cases r)
    case (Inl e)
    with p show ?thesis by (simp add: Cons.IH)
  next
    case (Inr ok)
    with p show ?thesis by (cases ok) (simp_all add: Cons.IH)
  qed
qed

lemma mset_split_fst:
  "mset (map fst (filter P zs)) + mset (map fst (filter (\<lambda>z. \<not> P z) zs)) = mset (map fst zs)"
  by (induction zs) simp_all

text \<open>
  Claim C9. For every list of symbols and every behaviour of the per-symbol step,
  raising included, the batch run returns a report: the success list holds, in order,
  the symbols whose step returned true, and the failed list all the others, among
  them every symbol whose step raised. So each occurrence of an input symbol is in
  exactly one of the two lists, and the two printed counts are their lengths, which
  add up to the number of symbols.
\<close>

theorem run_isolates_failures:
  "(case run process symbols w of
      ((res, n_ok, n_failed), w') \<Rightarrow>
        success res
          = map fst (filter (\<lambda>(s, r). r = Inr True) (zip symbols (outcomes process symbols w)))
      \<and> failed res
          = map fst (filter (\<lambda>(s, r). r \<noteq> Inr True) (zip symbols (outcomes process symbols w)))
      \<and> length (outcomes process symbols w) = length symbols
      \<and> mset (success res) + mset (failed res) = mset symbols
      \<and> n_ok = length (success res) \<and> n_failed = length (failed res)
      \<and> n_ok + n_failed = length symbols)"
proof -
  let ?zs = "zip symbols (outcomes process symbols w)"
  let ?P = "\<lambda>(s :: string, r :: 'b + bool). r = Inr True"
  obtain res w' where rl: "run_loop process symbols \<lparr>success = [], failed = []\<rparr> w = (res, w')"
    by (cases "run_loop process symbols \<lparr>success = [], failed = []\<rparr> w")
  have res: "res = \<lparr>success = map fst (filter ?P ?zs),
                     failed = map fst (filter (\<lambda>(s, r). r \<noteq> Inr True) ?zs)\<rparr>"
    using run_loop_report [of process symbols "\<lparr>success = [], failed = []\<rparr>" w] rl by simp
  have neg: "(\<lambda>(s :: string, r :: 'b + bool). r \<noteq> Inr True) = (\<lambda>z. \<not> ?P z)"
    by auto
  have fst: "map fst ?zs = symbols"
    by (simp add: length_outcomes)
  have m: "mset (success res) + mset (failed res) = mset symbols"
    using mset_split_fst [of ?P ?zs] by (simp add: res neg fst)
  then have "size (mset (success res) + mset (failed res)) = size (mset symbols)"
    by simp
  then have l: "length (success res) + length (failed res) = length symbols"
    by simp
  show ?thesis
    using rl m l by (simp add: run_def res length_outcomes)
qed

section \<open>Properties of the fetcher\<close>

subsection \<open>Readings of the trace\<close>

lemma sleeps_append: "sleeps (xs @ ys) = sleeps xs @ sleeps ys"
  by (induction xs rule: sleeps.induct) simp_all

lemma requests_append: "requests (xs @ ys) = requests xs @ requests ys"
  by (induction xs rule: requests.induct) simp_all

lemma delays_append: "delays (xs @ ys) = delays xs @ delays ys"
  by (simp add: delays_def sleeps_append)

lemma sleeps_polls: "sleeps (replicate k (Sleep d)) = replicate k d"
  by (induction k) simp_all

lemma requests_polls: "requests (replicate k (Sleep d)) = []"
  by (induction k) simp_all

lemma delays_polls: "delays (replicate k (Sleep (1 / 2))) = []"
  by (simp add: delays_def sleeps_polls filter_empty_conv)

lemma of_nat_not_half: "(of_nat n :: rat) \<noteq> 1 / 2"
proof
  assume "(of_nat n :: rat) = 1 / 2"
  then have "(of_nat (2 * n) :: rat) = of_nat 1" by simp
  then have "2 * n = 1" by (simp only: of_nat_eq_iff)
  then show False by presburger
qed

lemma backoff_fields:
  "rate_limiter (backoff attempt st) = rate_limiter st"
  "calls (backoff attempt st) = calls st"
  "requests (trace (backoff attempt st)) = requests (trace st)"
  "delays (trace (backoff attempt st))
     = delays (trace st) @ [of_nat (base_delay * 2 ^ attempt)]"
proof -
  show "rate_limiter (backoff attempt st) = rate_limiter st"
    and "calls (backoff attempt st) = calls st"
    and "requests (trace (backoff attempt st)) = requests (trace st)"
    by (simp_all add: backoff_def sleep_def print_def Let_def requests_append)
  have "delays [Sleep (of_nat (base_delay * 2 ^ attempt))] = [of_nat (base_delay * 2 ^ attempt)]"
    using of_nat_not_half [of "base_delay * 2 ^ attempt"] by (simp add: delays_def)
  then show "delays (trace (backoff attempt st))
     = delays (trace st) @ [of_nat (base_delay * 2 ^ attempt)]"
    by (simp add: backoff_def sleep_def print_def Let_def delays_append)
       (simp add: delays_def)
qed

lemma print_fields:
  "rate_limiter (print line st) = rate_limiter st"
  "calls (print line st) = calls st"
  "clock (print line st) = clock st"
  "requests (trace (print line st)) = requests (trace st)"
  "delays (trace (print line st)) = delays (trace st)"
  by (simp_all add: print_def requests_append delays_append) (simp add: delays_def)

subsection \<open>The wait for a token ends\<close>

lemma wait_for_token_got:
  assumes "fst (limiter_acquire st)"
  shows "wait_for_token st = Some (snd (limiter_acquire st))"
  using assms by (subst wait_for_token.simps) (simp add: split_beta)

lemma wait_for_token_poll:
  assumes "\<not> fst (limiter_acquire st)"
  shows "wait_for_token st = wait_for_token (sleep (1 / 2) (snd (limiter_acquire st)))"
  using assms by (subst wait_for_token.simps) (simp add: split_beta)

lemma limiter_acquire_fst:
  "fst (limiter_acquire st) \<longleftrightarrow> 1 \<le> tokens (refill (clock st) (rate_limiter st))"
  by (simp add: limiter_acquire_def acquire_def Let_def split_beta)

lemma limiter_acquire_snd:
  "calls (snd (limiter_acquire st)) = calls st"
  "trace (snd (limiter_acquire st)) = trace st"
  "clock (snd (limiter_acquire st)) = clock st"
  "max_tokens (rate_limiter (snd (limiter_acquire st))) = max_tokens (rate_limiter st)"
  "refill_rate (rate_limiter (snd (limiter_acquire st))) = refill_rate (rate_limiter st)"
  by (simp_all add: limiter_acquire_def split_beta)

lemma limiter_acquire_denied:
  assumes "\<not> fst (limiter_acquire st)"
  shows "rate_limiter (snd (limiter_acquire st)) = refill (clock st) (rate_limiter st)"
proof -
  from assms have "\<not> 1 \<le> tokens (refill (clock st) (rate_limiter st))"
    by (simp add: limiter_acquire_fst)
  then show ?thesis
    by (simp add: limiter_acquire_def acquire_def Let_def)
qed

lemma wait_for_token_bounded:
  assumes "can_refill (rate_limiter st)"
    and "1 - tokens (refill (clock st) (rate_limiter st))
           \<le> of_nat n * (refill_rate (rate_limiter st) / 2)"
  shows "\<exists>st' k. wait_for_token st = Some st' \<and> calls st' = calls st
           \<and> trace st' = trace st @ replicate k (Sleep (1 / 2))
           \<and> max_tokens (rate_limiter st') = max_tokens (rate_limiter st)
           \<and> refill_rate (rate_limiter st') = refill_rate (rate_limiter st)"
  using assms
proof (induction n arbitrary: st)
  case 0
  then have "fst (limiter_acquire st)"
    by (simp add: limiter_acquire_fst)
  then have "wait_for_token st = Some (snd (limiter_acquire st))"
    by (rule wait_for_token_got)
  moreover have "trace st = trace st @ replicate 0 (Sleep (1 / 2))" by simp
  ultimately show ?case
    using limiter_acquire_snd [of st] by metis
next
  case (Suc n)
  show ?case
  proof (cases "fst (limiter_acquire st)")
    case True
    then have "wait_for_token st = Some (snd (limiter_acquire st))"
      by (rule wait_for_token_got)
    moreover have "trace st = trace st @ replicate 0 (Sleep (1 / 2))" by simp
    ultimately show ?thesis
      using limiter_acquire_snd [of st] by metis
  next
    case False
    let ?l = "rate_limiter st"
    let ?T = "tokens (refill (clock st) ?l)"
    let ?st2 = "sleep (1 / 2) (snd (limiter_acquire st))"
    have w: "wait_for_token st = wait_for_token ?st2"
      using False by (rule wait_for_token_poll)
    have l2: "rate_limiter ?st2 = refill (clock st) ?l"
      using limiter_acquire_denied [OF False] by (simp add: sleep_def)
    have c2: "clock ?st2 = clock st + 1 / 2"
      by (simp add: sleep_def limiter_acquire_snd)
    have r: "0 < refill_rate ?l" and m: "1 \<le> max_tokens ?l"
      using Suc.prems(1) by (simp_all add: can_refill_def)
    have T2: "tokens (refill (clock ?st2) (rate_limiter ?st2))
                = min (of_int (max_tokens ?l)) (?T + (1 / 2) * refill_rate ?l)"
      by (simp add: l2 c2 refill_tokens)
    have rr: "refill_rate (rate_limiter ?st2) = refill_rate ?l"
      by (simp add: l2)
    have ineq: "1 - min (of_int (max_tokens ?l)) (?T + (1 / 2) * refill_rate ?l)
            \<le> of_nat n * (refill_rate ?l / 2)"
    proof (cases "of_int (max_tokens ?l) \<le> ?T + (1 / 2) * refill_rate ?l")
      case True
      have "(1::rat) \<le> of_int (max_tokens ?l)" using m by simp
      moreover have "0 \<le> of_nat n * (refill_rate ?l / 2)" using r by simp
      ultimately show ?thesis using True by (simp add: min_def)
    next
      case False
      have "1 - ?T \<le> of_nat (Suc n) * (refill_rate ?l / 2)"
        using Suc.prems(2) .
      then have "1 - (?T + (1 / 2) * refill_rate ?l) \<le> of_nat n * (refill_rate ?l / 2)"
        by (simp add: algebra_simps)
      then show ?thesis using False by (simp add: min_def)
    qed
    have b2: "1 - tokens (refill (clock ?st2) (rate_limiter ?st2))
                     \<le> of_nat n * (refill_rate (rate_limiter ?st2) / 2)"
      unfolding T2 rr by (rule ineq)
    have "can_refill (rate_limiter ?st2)"
      using r m by (simp add: l2 can_refill_def)
    from Suc.IH [OF this b2] obtain st' k where
      st': "wait_for_token ?st2 = Some st'" "calls st' = calls ?st2"
        "trace st' = trace ?st2 @ replicate k (Sleep (1 / 2))"
        "max_tokens (rate_limiter st') = max_tokens (rate_limiter ?st2)"
        "refill_rate (rate_limiter st') = refill_rate (rate_limiter ?st2)"
      by blast
    have "trace st' = trace st @ replicate (Suc k) (Sleep (1 / 2))"
      using st'(3) by (simp add: sleep_def limiter_acquire_snd)
    moreover have "calls st' = calls st"
      using st'(2) by (simp add: sleep_def limiter_acquire_snd)
    moreover have "max_tokens (rate_limiter st') = max_tokens ?l"
      and "refill_rate (rate_limiter st') = refill_rate ?l"
      using st'(4,5) by (simp_all add: l2)
    ultimately show ?thesis using w st'(1) by metis
  qed
qed

lemma wait_for_token_returns:
  assumes "can_refill (rate_limiter st)"
  shows "\<exists>st' k. wait_for_token st = Some st' \<and> calls st' = calls st
           \<and> trace st' = trace st @ replicate k (Sleep (1 / 2))
           \<and> max_tokens (rate_limiter st') = max_tokens (rate_limiter st)
           \<and> refill_rate (rate_limiter st') = refill_rate (rate_limiter st)"
proof -
  let ?r = "refill_rate (rate_limiter st)"
  let ?T = "tokens (refill (clock st) (rate_limiter st))"
  have r: "0 < ?r / 2" using assms by (simp add: can_refill_def)
  obtain n where "(1 - ?T) / (?r / 2) \<le> of_nat n"
    using real_arch_simple by blast
  then have "1 - ?T \<le> of_nat n * (?r / 2)"
    using r by (simp only: pos_divide_le_eq)
  with assms show ?thesis by (rule wait_for_token_bounded)
qed

subsection \<open>One attempt, and the loop over the attempts\<close>

lemma sleep_fields:
  "rate_limiter (sleep d st) = rate_limiter st"
  "calls (sleep d st) = calls st"
  "requests (trace (sleep d st)) = requests (trace st)"
  by (simp_all add: sleep_def requests_append)

lemma handle_response_frame:
  assumes "handle_response attempt resp st = Return r st'
         \<or> handle_response attempt resp st = Next st'"
  shows "calls st' = calls st \<and> rate_limiter st' = rate_limiter st
       \<and> requests (trace st') = requests (trace st)"
proof (cases resp)
  case Timeout
  with assms show ?thesis
    by (auto simp: handle_response_def backoff_fields print_fields)
next
  case (RequestException e)
  with assms show ?thesis
    by (auto simp: handle_response_def backoff_fields print_fields)
next
  case (Response status_code data)
  with assms show ?thesis
    by (auto simp: handle_response_def backoff_fields print_fields sleep_fields
        split: if_splits)
qed

lemma handle_response_backoff:
  assumes "falls_to_backoff resp"
  shows "\<exists>line. handle_response attempt resp st = Next (backoff attempt (print line st))"
  using assms by (cases resp) (auto simp: handle_response_def)

lemma attempts_step:
  assumes "wait_for_token st = Some st1"
  shows "attempts remote params (attempt # rest) st
           = (case handle_response attempt (remote (calls st1))
                     (st1\<lparr>calls := Suc (calls st1), trace := trace st1 @ [Call params]\<rparr>) of
                Return r st3 \<Rightarrow> Some (r, st3)
              | Next st3 \<Rightarrow> attempts remote params rest st3)"
  using assms by (simp add: attempts.simps http_get_def)

lemma attempts_returns:
  assumes "can_refill (rate_limiter st)"
  shows "\<exists>r st' n. attempts remote params todo st = Some (r, st') \<and> n \<le> length todo
           \<and> calls st' = calls st + n
           \<and> requests (trace st') = requests (trace st) @ replicate n params"
  using assms
proof (induction todo arbitrary: st)
  case Nil
  have "attempts remote params [] st = Some (None, print ''All retries failed'' st)"
    by (simp add: attempts.simps)
  moreover have "calls (print ''All retries failed'' st) = calls st + 0"
    and "requests (trace (print ''All retries failed'' st))
           = requests (trace st) @ replicate 0 params"
    by (simp_all add: print_fields)
  ultimately show ?case by blast
next
  case (Cons attempt rest)
  from wait_for_token_returns [OF Cons.prems] obtain st1 k where
    w: "wait_for_token st = Some st1" and c1: "calls st1 = calls st"
    and t1: "trace st1 = trace st @ replicate k (Sleep (1 / 2))"
    and m1: "max_tokens (rate_limiter st1) = max_tokens (rate_limiter st)"
    and r1: "refill_rate (rate_limiter st1) = refill_rate (rate_limiter st)"
    by blast
  let ?st2 = "st1\<lparr>calls := Suc (calls st1), trace := trace st1 @ [Call params]\<rparr>"
  have q2: "requests (trace ?st2) = requests (trace st) @ [params]"
    by (simp add: t1 requests_append requests_polls)
  have step: "attempts remote params (attempt # rest) st
           = (case handle_response attempt (remote (calls st1)) ?st2 of
                Return r st3 \<Rightarrow> Some (r, st3)
              | Next st3 \<Rightarrow> attempts remote params rest st3)"
    using w by (rule attempts_step)
  show ?case
  proof (cases "handle_response attempt (remote (calls st1)) ?st2")
    case (Return r st3)
    then have "calls st3 = calls ?st2" and "requests (trace st3) = requests (trace ?st2)"
      using handle_response_frame [of attempt "remote (calls st1)" ?st2 r st3] by simp_all
    then have "calls st3 = calls st + 1"
      and "requests (trace st3) = requests (trace st) @ replicate 1 params"
      using c1 q2 by simp_all
    moreover have "attempts remote params (attempt # rest) st = Some (r, st3)"
      using step Return by simp
    moreover have "(1::nat) \<le> length (attempt # rest)" by simp
    ultimately show ?thesis by blast
  next
    case (Next st3)
    then have f: "calls st3 = calls ?st2" "rate_limiter st3 = rate_limiter ?st2"
      "requests (trace st3) = requests (trace ?st2)"
      using handle_response_frame [of attempt "remote (calls st1)" ?st2 None st3] by simp_all
    have "can_refill (rate_limiter st3)"
      using Cons.prems m1 r1 f(2) by (simp add: can_refill_def)
    from Cons.IH [OF this] obtain r st' n where
      a: "attempts remote params rest st3 = Some (r, st')" and n: "n \<le> length rest"
      and c: "calls st' = calls st3 + n"
      and q: "requests (trace st') = requests (trace st3) @ replicate n params"
      by blast
    have "attempts remote params (attempt # rest) st = Some (r, st')"
      using step Next a by simp
    moreover have "Suc n \<le> length (attempt # rest)" using n by simp
    moreover have "calls st' = calls st + Suc n"
      using c f(1) c1 by simp
    moreover have "requests (trace st') = requests (trace st) @ replicate (Suc n) params"
      using q f(3) q2 by simp
    ultimately show ?thesis by blast
  qed
qed

lemma handle_response_notice:
  assumes "throttle_notice resp"
  shows "\<exists>line. handle_response attempt resp st = Next (sleep 60 (print line st))"
  using assms by (cases resp) (auto simp: handle_response_def)

lemma cooldown_fields:
  "rate_limiter (sleep 60 st) = rate_limiter st"
  "calls (sleep 60 st) = calls st"
  "delays (trace (sleep 60 st)) = delays (trace st) @ [60]"
  by (simp_all add: sleep_def delays_append) (simp add: delays_def)

lemma backoff_not_notice:
  assumes "falls_to_backoff resp"
  shows "\<not> throttle_notice resp"
  using assms by (cases resp) simp_all

lemma expected_delays_backoff:
  assumes "\<forall>j < length todo. falls_to_backoff (remote (k + j))"
  shows "expected_delays remote k todo = map (\<lambda>i. of_nat (base_delay * 2 ^ i)) todo"
  using assms
proof (induction todo arbitrary: k)
  case Nil
  show ?case by simp
next
  case (Cons i rest)
  have "0 < length (i # rest)" by simp
  with Cons.prems have "falls_to_backoff (remote (k + 0))" by blast
  then have h: "\<not> throttle_notice (remote k)"
    using backoff_not_notice by simp
  have "\<forall>j < length rest. falls_to_backoff (remote (Suc k + j))"
  proof (intro allI impI)
    fix j assume "j < length rest"
    then have "Suc j < length (i # rest)" by simp
    with Cons.prems have "falls_to_backoff (remote (k + Suc j))" by blast
    then show "falls_to_backoff (remote (Suc k + j))" by simp
  qed
  from Cons.IH [OF this] h show ?case by simp
qed

lemma attempts_retryable:
  assumes "can_refill (rate_limiter st)"
    and "\<forall>j < length todo. falls_to_backoff (remote (calls st + j))
                           \<or> throttle_notice (remote (calls st + j))"
  shows "\<exists>st'. attempts remote params todo st = Some (None, st')
           \<and> calls st' = calls st + length todo
           \<and> delays (trace st') = delays (trace st) @ expected_delays remote (calls st) todo"
  using assms
proof (induction todo arbitrary: st)
  case Nil
  have "attempts remote params [] st = Some (None, print ''All retries failed'' st)"
    by (simp add: attempts.simps)
  then show ?case by (simp add: print_fields)
next
  case (Cons attempt rest)
  from wait_for_token_returns [OF Cons.prems(1)] obtain st1 k where
    w: "wait_for_token st = Some st1" and c1: "calls st1 = calls st"
    and t1: "trace st1 = trace st @ replicate k (Sleep (1 / 2))"
    and m1: "max_tokens (rate_limiter st1) = max_tokens (rate_limiter st)"
    and r1: "refill_rate (rate_limiter st1) = refill_rate (rate_limiter st)"
    by blast
  let ?st2 = "st1\<lparr>calls := Suc (calls st1), trace := trace st1 @ [Call params]\<rparr>"
  let ?d = "if throttle_notice (remote (calls st)) then 60
            else (of_nat (base_delay * 2 ^ attempt) :: rat)"
  have d2: "delays (trace ?st2) = delays (trace st)"
    by (simp add: t1 delays_append delays_polls) (simp add: delays_def)
  have "0 < length (attempt # rest)" by simp
  with Cons.prems(2) have "falls_to_backoff (remote (calls st + 0))
                         \<or> throttle_notice (remote (calls st + 0))" by blast
  then have first: "falls_to_backoff (remote (calls st)) \<or> throttle_notice (remote (calls st))"
    by simp
  have "\<exists>st3. handle_response attempt (remote (calls st1)) ?st2 = Next st3
          \<and> calls st3 = Suc (calls st) \<and> rate_limiter st3 = rate_limiter st1
          \<and> delays (trace st3) = delays (trace st) @ [?d]"
  proof (cases "throttle_notice (remote (calls st))")
    case True
    then obtain line where
      "handle_response attempt (remote (calls st1)) ?st2 = Next (sleep 60 (print line ?st2))"
      using handle_response_notice c1 by metis
    moreover have "calls (sleep 60 (print line ?st2)) = Suc (calls st)"
      by (simp add: cooldown_fields print_fields c1)
    moreover have "rate_limiter (sleep 60 (print line ?st2)) = rate_limiter st1"
      by (simp add: cooldown_fields print_fields)
    moreover have "delays (trace (sleep 60 (print line ?st2))) = delays (trace st) @ [?d]"
      using True by (simp only: cooldown_fields print_fields d2 if_True)
    ultimately show ?thesis by blast
  next
    case False
    with first have "falls_to_backoff (remote (calls st1))" by (simp add: c1)
    then obtain line where
      "handle_response attempt (remote (calls st1)) ?st2
         = Next (backoff attempt (print line ?st2))"
      using handle_response_backoff by blast
    moreover have "calls (backoff attempt (print line ?st2)) = Suc (calls st)"
      by (simp add: backoff_fields print_fields c1)
    moreover have "rate_limiter (backoff attempt (print line ?st2)) = rate_limiter st1"
      by (simp add: backoff_fields print_fields)
    moreover have "delays (trace (backoff attempt (print line ?st2)))
                     = delays (trace st) @ [?d]"
      using False by (simp only: backoff_fields print_fields d2 if_False)
    ultimately show ?thesis by blast
  qed
  then obtain st3 where
    h: "handle_response attempt (remote (calls st1)) ?st2 = Next st3"
    and c3: "calls st3 = Suc (calls st)" and l3: "rate_limiter st3 = rate_limiter st1"
    and d3: "delays (trace st3) = delays (trace st) @ [?d]"
    by blast
  have step: "attempts remote params (attempt # rest) st = attempts remote params rest st3"
    using attempts_step [OF w, of remote params attempt rest] h by simp
  have live: "can_refill (rate_limiter st3)"
    using Cons.prems(1) m1 r1 l3 by (simp add: can_refill_def)
  have "\<forall>j < length rest. falls_to_backoff (remote (calls st3 + j))
                           \<or> throttle_notice (remote (calls st3 + j))"
  proof (intro allI impI)
    fix j assume "j < length rest"
    then have "Suc j < length (attempt # rest)" by simp
    with Cons.prems(2) have "falls_to_backoff (remote (calls st + Suc j))
                           \<or> throttle_notice (remote (calls st + Suc j))" by blast
    then show "falls_to_backoff (remote (calls st3 + j))
                           \<or> throttle_notice (remote (calls st3 + j))" by (simp add: c3)
  qed
  from Cons.IH [OF live this] obtain st' where
    "attempts remote params rest st3 = Some (None, st')"
    "calls st' = calls st3 + length rest"
    "delays (trace st') = delays (trace st3) @ expected_delays remote (calls st3) rest"
    by blast
  then show ?case using step c3 d3 by simp
qed

lemma retry_range: "[0..<max_retries] = [0, 1, 2, 3, 4]"
  by (simp add: max_retries_def upt_rec)

lemma live_new_fetcher: "can_refill (rate_limiter (new_fetcher now))"
  by (simp add: can_refill_def new_fetcher_def init_limiter_def)

lemma make_request_attempts:
  "make_request api_key remote params st
     = map_option (\<lambda>(r, st'). ((r, AList.update ''apikey'' api_key params), st'))
         (attempts remote (AList.update ''apikey'' api_key params) [0, 1, 2, 3, 4] st)"
  by (simp only: make_request_def retry_range Let_def)

subsection \<open>The claims about the fetcher\<close>

text \<open>
  Claim C1 says that a response with status 429, like a body with the field \<^verbatim>\<open>Note\<close>,
  makes the fetcher wait the fixed cooldown of 60. A response with status 429 falls
  through to the exponential backoff: when every call is answered with status 429, the
  sleeps of the invocation are 1, 2, 4, 8 and 16, and none is 60.
\<close>

theorem status_429_counterexample:
  "map_option (\<lambda>(x, st'). sleeps (trace st'))
     (make_request ''KEY'' (\<lambda>k. Response 429 [])
        [(''function'', ''OVERVIEW''), (''symbol'', ''AAPL'')] (new_fetcher 0))
     = Some [1, 2, 4, 8, 16]"
  by code_simp

text \<open>
  Claim C1 as amended. In every attempt of a fetch whose rate limiter can refill: when
  the response has status 200 and its body has the field \<^verbatim>\<open>Note\<close> and not the field
  \<^verbatim>\<open>Error Message\<close>, the fetcher makes that one call, sleeps 60 and goes on to the next
  attempt, with no exponential delay for this attempt; when the response has any status
  other than 200, among them 429, it makes that one call, sleeps
  \<^verbatim>\<open>base_delay * 2 ** attempt\<close> and goes on to the next attempt, whatever the body holds.
  (The delays are the sleeps other than the polls of the rate limiter.)
\<close>

theorem throttle_notice_cooldown:
  assumes "can_refill (rate_limiter st)"
    and "remote (calls st) = Response status_code data"
  shows "(status_code = 200 \<and> map_of data ''Error Message'' = None
            \<and> map_of data ''Note'' \<noteq> None \<longrightarrow>
          (\<exists>st2. attempts remote params (attempt # rest) st = attempts remote params rest st2
             \<and> calls st2 = Suc (calls st)
             \<and> delays (trace st2) = delays (trace st) @ [60]))
       \<and> (status_code \<noteq> 200 \<longrightarrow>
          (\<exists>st2. attempts remote params (attempt # rest) st = attempts remote params rest st2
             \<and> calls st2 = Suc (calls st)
             \<and> delays (trace st2) = delays (trace st) @ [of_nat (base_delay * 2 ^ attempt)]))"
proof -
  from wait_for_token_returns [OF assms(1)] obtain st1 k where
    w: "wait_for_token st = Some st1" and c1: "calls st1 = calls st"
    and t1: "trace st1 = trace st @ replicate k (Sleep (1 / 2))"
    by blast
  let ?st2 = "st1\<lparr>calls := Suc (calls st1), trace := trace st1 @ [Call params]\<rparr>"
  have d2: "delays (trace ?st2) = delays (trace st)"
    by (simp add: t1 delays_append delays_polls) (simp add: delays_def)
  have step: "attempts remote params (attempt # rest) st
           = (case handle_response attempt (Response status_code data) ?st2 of
                Return r st3 \<Rightarrow> Some (r, st3)
              | Next st3 \<Rightarrow> attempts remote params rest st3)"
    using attempts_step [OF w, of remote params attempt rest] assms(2) c1 by simp
  show ?thesis
  proof (intro conjI impI)
    assume a: "status_code = 200 \<and> map_of data ''Error Message'' = None
                 \<and> map_of data ''Note'' \<noteq> None"
    let ?line = "''Rate limit warning: '' @ str_json (the (map_of data ''Note''))"
    let ?st3 = "sleep 60 (print ?line ?st2)"
    have "handle_response attempt (Response status_code data) ?st2 = Next ?st3"
      using a by (simp add: handle_response_def)
    then have "attempts remote params (attempt # rest) st = attempts remote params rest ?st3"
      using step by simp
    moreover have "calls ?st3 = Suc (calls st)"
      by (simp add: sleep_fields print_fields c1)
    moreover have "delays (trace ?st3) = delays (trace st) @ [60]"
    proof -
      have "delays (trace ?st3) = delays (trace (print ?line ?st2)) @ delays [Sleep 60]"
        by (simp add: sleep_def delays_append)
      also have "\<dots> = delays (trace st) @ [60]"
        by (simp only: print_fields d2) (simp add: delays_def)
      finally show ?thesis .
    qed
    ultimately show "\<exists>st2. attempts remote params (attempt # rest) st
                        = attempts remote params rest st2
             \<and> calls st2 = Suc (calls st) \<and> delays (trace st2) = delays (trace st) @ [60]"
      by blast
  next
    assume "status_code \<noteq> 200"
    then have "falls_to_backoff (Response status_code data)" by simp
    then obtain line where
      h: "handle_response attempt (Response status_code data) ?st2
            = Next (backoff attempt (print line ?st2))"
      using handle_response_backoff by blast
    let ?st3 = "backoff attempt (print line ?st2)"
    have "attempts remote params (attempt # rest) st = attempts remote params rest ?st3"
      using step h by simp
    moreover have "calls ?st3 = Suc (calls st)"
      by (simp add: backoff_fields print_fields c1)
    moreover have "delays (trace ?st3)
                     = delays (trace st) @ [of_nat (base_delay * 2 ^ attempt)]"
      by (simp only: backoff_fields print_fields d2)
    ultimately show "\<exists>st2. attempts remote params (attempt # rest) st
                        = attempts remote params rest st2
             \<and> calls st2 = Suc (calls st)
             \<and> delays (trace st2) = delays (trace st) @ [of_nat (base_delay * 2 ^ attempt)]"
      by blast
  qed
qed

theorem throttle_notice_cooldown_witness:
  "can_refill (rate_limiter (new_fetcher 0))
   \<and> (\<exists>st2. attempts (\<lambda>k. Response 200 [(''Note'', JStr ''Thank you for using Alpha Vantage!'')])
               [(''symbol'', ''AAPL''), (''apikey'', ''KEY'')] [0, 1, 2, 3, 4] (new_fetcher 0)
             = attempts (\<lambda>k. Response 200 [(''Note'', JStr ''Thank you for using Alpha Vantage!'')])
                 [(''symbol'', ''AAPL''), (''apikey'', ''KEY'')] [1, 2, 3, 4] st2
           \<and> calls st2 = 1 \<and> delays (trace st2) = [60])"
  using throttle_notice_cooldown
    [OF live_new_fetcher,
     of "\<lambda>k. Response 200 [(''Note'', JStr ''Thank you for using Alpha Vantage!'')]" 0
        200 "[(''Note'', JStr ''Thank you for using Alpha Vantage!'')]"
        "[(''symbol'', ''AAPL''), (''apikey'', ''KEY'')]" 0 "[1, 2, 3, 4]"]
  by (simp add: live_new_fetcher) (simp add: new_fetcher_def delays_def)

text \<open>
  Claim C2 says that a fetch whose every attempt fails retryably has the delays 1, 2,
  4, 8, 16. An attempt answered with status 200 and the field \<^verbatim>\<open>Note\<close> is retried as
  well, after the fixed cooldown and without the exponential delay: when every call is
  answered so, five calls are made and every sleep of the fetch is 60.
\<close>

theorem all_notice_counterexample:
  "map_option (\<lambda>(x, st'). (fst x, calls st', sleeps (trace st')))
     (make_request ''KEY''
        (\<lambda>k. Response 200 [(''Note'', JStr ''Thank you for using Alpha Vantage!'')])
        [(''function'', ''GLOBAL_QUOTE''), (''symbol'', ''AAPL'')] (new_fetcher 0))
     = Some (None, 5, [60, 60, 60, 60, 60])"
  by code_simp

text \<open>
  Claim C2 as amended. A fetch whose rate limiter can refill and whose five attempts
  are all retried, each one ending in a timeout, another request exception, a status
  other than 200, or the throttle notice, returns \<^verbatim>\<open>None\<close> after exactly five remote
  calls. Its delays (the sleeps other than the polls of the rate limiter, which last
  half a time unit) are, attempt by attempt, \<^verbatim>\<open>base_delay * 2 ** attempt\<close>, but 60 after
  an attempt answered by the throttle notice; so they are 1, 2, 4, 8, 16 in this
  order, the last one after the fifth call, when no attempt is answered by the
  notice. Whatever the remote side answers, a fetch makes at most five remote calls.
\<close>

theorem backoff_schedule:
  assumes "can_refill (rate_limiter st)"
    and "\<forall>j < 5. falls_to_backoff (remote (calls st + j))
                 \<or> throttle_notice (remote (calls st + j))"
  shows "(\<exists>st'. make_request api_key remote params st
                  = Some ((None, AList.update ''apikey'' api_key params), st')
            \<and> calls st' = calls st + 5
            \<and> delays (trace st')
                = delays (trace st) @ expected_delays remote (calls st) [0, 1, 2, 3, 4]
            \<and> ((\<forall>j < 5. falls_to_backoff (remote (calls st + j)))
                 \<longrightarrow> delays (trace st') = delays (trace st) @ [1, 2, 4, 8, 16]))
       \<and> (\<forall>remote' x st'. make_request api_key remote' params st = Some (x, st')
            \<longrightarrow> calls st' \<le> calls st + 5)"
proof (intro conjI allI impI)
  let ?p = "AList.update ''apikey'' api_key params"
  have "\<forall>j < length [0, 1, 2, 3, 4 :: nat]. falls_to_backoff (remote (calls st + j))
                 \<or> throttle_notice (remote (calls st + j))"
    using assms(2) by simp
  from attempts_retryable [OF assms(1) this, of ?p] obtain st' where
    a: "attempts remote ?p [0, 1, 2, 3, 4] st = Some (None, st')"
    and c: "calls st' = calls st + length [0, 1, 2, 3, 4 :: nat]"
    and d: "delays (trace st')
              = delays (trace st) @ expected_delays remote (calls st) [0, 1, 2, 3, 4]"
    by blast
  have "make_request api_key remote params st = Some ((None, ?p), st')"
    unfolding make_request_attempts a by simp
  moreover have "calls st' = calls st + 5" using c by simp
  moreover have "delays (trace st') = delays (trace st) @ [1, 2, 4, 8, 16]"
    if b: "\<forall>j < 5. falls_to_backoff (remote (calls st + j))"
  proof -
    have "\<forall>j < length [0, 1, 2, 3, 4 :: nat]. falls_to_backoff (remote (calls st + j))"
      using b by simp
    then have "expected_delays remote (calls st) [0, 1, 2, 3, 4]
                 = map (\<lambda>i. of_nat (base_delay * 2 ^ i)) [0, 1, 2, 3, 4]"
      by (rule expected_delays_backoff)
    then show ?thesis using d by (simp add: base_delay_def)
  qed
  ultimately show "\<exists>st'. make_request api_key remote params st = Some ((None, ?p), st')
            \<and> calls st' = calls st + 5
            \<and> delays (trace st')
                = delays (trace st) @ expected_delays remote (calls st) [0, 1, 2, 3, 4]
            \<and> ((\<forall>j < 5. falls_to_backoff (remote (calls st + j)))
                 \<longrightarrow> delays (trace st') = delays (trace st) @ [1, 2, 4, 8, 16])"
    using d by blast
next
  fix remote' x st'
  let ?p = "AList.update ''apikey'' api_key params"
  assume m: "make_request api_key remote' params st = Some (x, st')"
  from attempts_returns [OF assms(1), of remote' ?p "[0, 1, 2, 3, 4]"] obtain r st'' n where
    a: "attempts remote' ?p [0, 1, 2, 3, 4] st = Some (r, st'')"
    and n: "n \<le> length [0, 1, 2, 3, 4 :: nat]" and c: "calls st'' = calls st + n"
    by blast
  from m have "st' = st''"
    unfolding make_request_attempts a by auto
  then show "calls st' \<le> calls st + 5"
    using n c by simp
qed

theorem backoff_schedule_witness:
  "can_refill (rate_limiter (new_fetcher 0))
   \<and> list_all (\<lambda>j. falls_to_backoff
         ((\<lambda>k. if even k then Timeout else Response 503 []) (calls (new_fetcher 0) + j)))
         [0, 1, 2, 3, 4]
   \<and> map_option (\<lambda>(x, st'). (fst x, calls st', sleeps (trace st')))
       (make_request ''KEY'' (\<lambda>k. if even k then Timeout else Response 503 [])
          [(''function'', ''GLOBAL_QUOTE''), (''symbol'', ''AAPL'')] (new_fetcher 0))
     = Some (None, 5, [1, 2, 4, 8, 16])
   \<and> map_option (\<lambda>(x, st'). (fst x, calls st', sleeps (trace st')))
       (make_request ''KEY''
          (\<lambda>k. if even k then Timeout
                else Response 200 [(''Note'', JStr ''Thank you for using Alpha Vantage!'')])
          [(''function'', ''GLOBAL_QUOTE''), (''symbol'', ''AAPL'')] (new_fetcher 0))
     = Some (None, 5, [1, 60, 4, 60, 16])"
proof -
  have b: "\<forall>j < 5. falls_to_backoff
             ((\<lambda>k. if even k then Timeout else Response 503 []) (calls (new_fetcher 0) + j))
           \<or> throttle_notice
             ((\<lambda>k. if even k then Timeout else Response 503 []) (calls (new_fetcher 0) + j))"
    by simp
  have e: "map_option (\<lambda>(x, st'). (fst x, calls st', sleeps (trace st')))
       (make_request ''KEY'' (\<lambda>k. if even k then Timeout else Response 503 [])
          [(''function'', ''GLOBAL_QUOTE''), (''symbol'', ''AAPL'')] (new_fetcher 0))
     = Some (None, 5, [1, 2, 4, 8, 16])"
    by code_simp
  have f: "map_option (\<lambda>(x, st'). (fst x, calls st', sleeps (trace st')))
       (make_request ''KEY''
          (\<lambda>k. if even k then Timeout
                else Response 200 [(''Note'', JStr ''Thank you for using Alpha Vantage!'')])
          [(''function'', ''GLOBAL_QUOTE''), (''symbol'', ''AAPL'')] (new_fetcher 0))
     = Some (None, 5, [1, 60, 4, 60, 16])"
    by code_simp
  from backoff_schedule
    [where st = "new_fetcher 0" and api_key = "''KEY''"
       and remote = "\<lambda>k. if even k then Timeout else Response 503 []"
       and params = "[(''function'', ''GLOBAL_QUOTE''), (''symbol'', ''AAPL'')]",
     OF live_new_fetcher b] e f
  show ?thesis
    by (simp add: live_new_fetcher)
qed

text \<open>
  Claim C3 says that a response whose body has the field \<^verbatim>\<open>Error Message\<close> ends the
  fetch at once, and that the caller is told the message. The body is only read when
  the status is 200: with status 500 and such a body on every call, five remote calls
  are made before the fetch gives up. And with status 200 the value returned to the
  caller is \<^verbatim>\<open>None\<close>, as it is when the retries run out; the message is only printed.
\<close>

theorem error_field_counterexample:
  "map_option (\<lambda>(x, st'). (fst x, calls st'))
     (make_request ''KEY'' (\<lambda>k. Response 500 [(''Error Message'', JStr ''Invalid API call.'')])
        [(''function'', ''OVERVIEW''), (''symbol'', ''AAPL'')] (new_fetcher 0))
     = Some (None, 5)
   \<and> map_option (\<lambda>(x, st'). (fst x, calls st'))
     (make_request ''KEY'' (\<lambda>k. Response 200 [(''Error Message'', JStr ''Invalid API call.'')])
        [(''function'', ''OVERVIEW''), (''symbol'', ''AAPL'')] (new_fetcher 0))
     = Some (None, 1)"
  by code_simp

text \<open>
  Claim C3 as amended. In every attempt of a fetch whose rate limiter can refill, when
  the response has status 200 and its body has the field \<^verbatim>\<open>Error Message\<close>, the fetcher
  returns \<^verbatim>\<open>None\<close> at once: after the wait for a token it makes that one remote call,
  prints the line \<^verbatim>\<open>API Error:\<close> with the message, and does nothing more (no sleep, no
  further call). The message reaches the caller only as that printed line.
\<close>

theorem error_field_terminal:
  assumes "can_refill (rate_limiter st)"
    and "remote (calls st) = Response 200 data"
    and "map_of data ''Error Message'' = Some msg"
  shows "\<exists>st1 k. wait_for_token st = Some st1 \<and> calls st1 = calls st
           \<and> trace st1 = trace st @ replicate k (Sleep (1 / 2))
           \<and> attempts remote params (attempt # rest) st
               = Some (None, st1\<lparr>calls := Suc (calls st),
                                  trace := trace st1
                                    @ [Call params, Print (''API Error: '' @ str_json msg)]\<rparr>)"
proof -
  from wait_for_token_returns [OF assms(1)] obtain st1 k where
    w: "wait_for_token st = Some st1" and c1: "calls st1 = calls st"
    and t1: "trace st1 = trace st @ replicate k (Sleep (1 / 2))"
    by blast
  let ?st2 = "st1\<lparr>calls := Suc (calls st1), trace := trace st1 @ [Call params]\<rparr>"
  have "handle_response attempt (Response 200 data) ?st2
          = Return None (print (''API Error: '' @ str_json msg) ?st2)"
    using assms(3) by (simp add: handle_response_def)
  then have "attempts remote params (attempt # rest) st
               = Some (None, print (''API Error: '' @ str_json msg) ?st2)"
    using attempts_step [OF w, of remote params attempt rest] assms(2) c1 by simp
  moreover have "print (''API Error: '' @ str_json msg) ?st2
                   = st1\<lparr>calls := Suc (calls st),
                          trace := trace st1
                            @ [Call params, Print (''API Error: '' @ str_json msg)]\<rparr>"
    by (simp add: print_def c1)
  ultimately show ?thesis using w c1 t1 by metis
qed

theorem error_field_terminal_witness:
  "can_refill (rate_limiter (new_fetcher 0))
   \<and> map_option (\<lambda>(x, st'). (fst x, trace st'))
       (make_request ''KEY''
          (\<lambda>k. Response 200 [(''Error Message'', JStr ''Invalid API call.'')])
          [(''symbol'', ''AAPL'')] (new_fetcher 0))
     = Some (None, [Call [(''symbol'', ''AAPL''), (''apikey'', ''KEY'')],
                    Print ''API Error: Invalid API call.''])"
proof -
  have e: "map_option (\<lambda>(x, st'). (fst x, trace st'))
       (make_request ''KEY''
          (\<lambda>k. Response 200 [(''Error Message'', JStr ''Invalid API call.'')])
          [(''symbol'', ''AAPL'')] (new_fetcher 0))
     = Some (None, [Call [(''symbol'', ''AAPL''), (''apikey'', ''KEY'')],
                    Print ''API Error: Invalid API call.''])"
    by code_simp
  have r: "(\<lambda>k. Response 200 [(''Error Message'', JStr ''Invalid API call.'')])
             (calls (new_fetcher 0))
           = Response 200 [(''Error Message'', JStr ''Invalid API call.'')]"
    by simp
  have m: "map_of [(''Error Message'', JStr ''Invalid API call.'')] ''Error Message''
             = Some (JStr ''Invalid API call.'')"
    by simp
  from error_field_terminal
    [where st = "new_fetcher 0" and attempt = 0 and rest = "[1, 2, 3, 4]"
       and params = "[(''symbol'', ''AAPL''), (''apikey'', ''KEY'')]",
     OF live_new_fetcher r m] e
  show ?thesis
    by (simp only: live_new_fetcher simp_thms)
qed

text \<open>
  Claim C10. A fetch whose rate limiter can refill returns, whatever the remote side
  answers, and the caller's dict is then the one it passed with the entry \<^verbatim>\<open>apikey\<close>
  set to the credential and every other key as before. The assignment comes before
  the first attempt: every remote call of the fetch, at most five, is sent this dict.
\<close>

theorem make_request_sets_apikey:
  assumes "can_refill (rate_limiter st)"
  shows "\<exists>r st' n. make_request api_key remote params st
                     = Some ((r, AList.update ''apikey'' api_key params), st')
           \<and> n \<le> 5
           \<and> requests (trace st')
               = requests (trace st) @ replicate n (AList.update ''apikey'' api_key params)
           \<and> map_of (AList.update ''apikey'' api_key params) ''apikey'' = Some api_key
           \<and> (\<forall>k. k \<noteq> ''apikey'' \<longrightarrow>
                 map_of (AList.update ''apikey'' api_key params) k = map_of params k)"
proof -
  let ?p = "AList.update ''apikey'' api_key params"
  from attempts_returns [OF assms, of remote ?p "[0, 1, 2, 3, 4]"] obtain r st' n where
    a: "attempts remote ?p [0, 1, 2, 3, 4] st = Some (r, st')"
    and n: "n \<le> length [0, 1, 2, 3, 4 :: nat]"
    and q: "requests (trace st') = requests (trace st) @ replicate n ?p"
    by blast
  have "make_request api_key remote params st = Some ((r, ?p), st')"
    unfolding make_request_attempts a by simp
  moreover have "n \<le> 5" using n by simp
  moreover have "map_of ?p ''apikey'' = Some api_key"
    by (simp add: update_conv')
  moreover have "\<forall>k. k \<noteq> ''apikey'' \<longrightarrow> map_of ?p k = map_of params k"
    by (simp add: update_conv')
  ultimately show ?thesis using q by blast
qed

theorem make_request_sets_apikey_witness:
  "can_refill (rate_limiter (new_fetcher 0))
   \<and> map_option (\<lambda>(x, st'). (x, requests (trace st')))
       (make_request ''KEY'' (\<lambda>k. Response 200 [(''Symbol'', JStr ''AAPL'')])
          [(''function'', ''OVERVIEW''), (''symbol'', ''AAPL'')] (new_fetcher 0))
     = Some ((Some [(''Symbol'', JStr ''AAPL'')],
              [(''function'', ''OVERVIEW''), (''symbol'', ''AAPL''), (''apikey'', ''KEY'')]),
             [[(''function'', ''OVERVIEW''), (''symbol'', ''AAPL''), (''apikey'', ''KEY'')]])"
proof -
  have e: "map_option (\<lambda>(x, st'). (x, requests (trace st')))
       (make_request ''KEY'' (\<lambda>k. Response 200 [(''Symbol'', JStr ''AAPL'')])
          [(''function'', ''OVERVIEW''), (''symbol'', ''AAPL'')] (new_fetcher 0))
     = Some ((Some [(''Symbol'', JStr ''AAPL'')],
              [(''function'', ''OVERVIEW''), (''symbol'', ''AAPL''), (''apikey'', ''KEY'')]),
             [[(''function'', ''OVERVIEW''), (''symbol'', ''AAPL''), (''apikey'', ''KEY'')]])"
    by code_simp
  from make_request_sets_apikey
    [where st = "new_fetcher 0" and api_key = "''KEY''"
       and remote = "\<lambda>k. Response 200 [(''Symbol'', JStr ''AAPL'')]"
       and params = "[(''function'', ''OVERVIEW''), (''symbol'', ''AAPL'')]",
     OF live_new_fetcher] e
  show ?thesis
    by (simp only: live_new_fetcher simp_thms)
qed

end
